theory Spec2Isabelle
  imports Main "HOL-Library.Product_Lexorder"
begin

section \<open>Python values, errors and results\<close>

text \<open>
  The generator of \<^verbatim>\<open>schedule_generator.py\<close> reads dictionaries whose values may be of
  any Python type; the code only asks whether a value is a \<^verbatim>\<open>str\<close>.
\<close>

datatype pyval = PStr string | PInt int | PNone

text \<open>
  Every \<^verbatim>\<open>raise\<close> of the source is a value. \<open>ValueError\<close> and \<open>RuntimeError\<close> carry the
  message. \<open>OverflowError\<close> is what \<^verbatim>\<open>date + timedelta\<close> raises when the result leaves
  \<^verbatim>\<open>date.min .. date.max\<close>. \<open>KeyError\<close> is a failed dictionary lookup, and
  \<open>TypeError\<close> stands for the exception of a string operation on a value that is no string.
\<close>

datatype error =
    ValueError string
  | RuntimeError string
  | OverflowError
  | KeyError string
  | TypeError

section \<open>Calendar dates\<close>

text \<open>
  \<^verbatim>\<open>datetime.date\<close>: a year, a month and a day of the proleptic Gregorian calendar, with
  \<^verbatim>\<open>1 <= year <= 9999\<close>. Python compares dates as the triples (year, month, day).
\<close>

datatype date = Date (year: nat) (month: nat) (day: nat)

definition date_key :: "date \<Rightarrow> nat \<times> nat \<times> nat" where
  "date_key d = (year d, month d, day d)"

instantiation date :: linorder
begin

definition less_eq_date :: "date \<Rightarrow> date \<Rightarrow> bool" where
  "less_eq_date d e \<longleftrightarrow> date_key d \<le> date_key e"

definition less_date :: "date \<Rightarrow> date \<Rightarrow> bool" where
  "less_date d e \<longleftrightarrow> date_key d < date_key e"

instance
proof
  fix x y z :: date
  show "(x < y) = (x \<le> y \<and> \<not> y \<le> x)"
    by (auto simp: less_eq_date_def less_date_def)
  show "x \<le> x"
    by (simp add: less_eq_date_def)
  show "x \<le> y \<Longrightarrow> y \<le> z \<Longrightarrow> x \<le> z"
    unfolding less_eq_date_def by (rule order_trans)
  show "x \<le> y \<Longrightarrow> y \<le> x \<Longrightarrow> x = y"
    unfolding less_eq_date_def date_key_def
    by (cases x; cases y) (auto simp: less_eq_prod_def split: if_splits)
  show "x \<le> y \<or> y \<le> x"
    unfolding less_eq_date_def by (rule linear)
qed

end

definition isleap :: "nat \<Rightarrow> bool" where
  "isleap y \<longleftrightarrow> y mod 4 = 0 \<and> (y mod 100 \<noteq> 0 \<or> y mod 400 = 0)"

text \<open>\<^verbatim>\<open>calendar.monthrange(y, m)[1]\<close>: the number of days of month \<open>m\<close> of year \<open>y\<close>.\<close>

definition days_in_month :: "nat \<Rightarrow> nat \<Rightarrow> nat" where
  "days_in_month y m =
     (if m = 2 then (if isleap y then 29 else 28)
      else if m = 4 \<or> m = 6 \<or> m = 9 \<or> m = 11 then 30 else 31)"

definition MINYEAR :: nat where "MINYEAR = 1"
definition MAXYEAR :: nat where "MAXYEAR = 9999"

definition valid_date :: "date \<Rightarrow> bool" where
  "valid_date d \<longleftrightarrow>
     MINYEAR \<le> year d \<and> year d \<le> MAXYEAR \<and> 1 \<le> month d \<and> month d \<le> 12 \<and>
     1 \<le> day d \<and> day d \<le> days_in_month (year d) (month d)"

definition days_before_year :: "nat \<Rightarrow> int" where
  "days_before_year y =
     (let y1 = int y - 1 in y1 * 365 + y1 div 4 - y1 div 100 + y1 div 400)"

definition days_before_month :: "nat \<Rightarrow> nat \<Rightarrow> int" where
  "days_before_month y m =
     int ([0, 31, 59, 90, 120, 151, 181, 212, 243, 273, 304, 334] ! (m - 1)) +
     (if m > 2 \<and> isleap y then 1 else 0)"

text \<open>\<^verbatim>\<open>date.toordinal()\<close>: 0001-01-01 is day 1.\<close>

definition toordinal :: "date \<Rightarrow> int" where
  "toordinal d = days_before_year (year d) + days_before_month (year d) (month d) + int (day d)"

text \<open>\<^verbatim>\<open>date.weekday()\<close>: Monday is 0 and Sunday is 6.\<close>

definition weekday :: "date \<Rightarrow> int" where
  "weekday d = (toordinal d + 6) mod 7"

text \<open>
  \<^verbatim>\<open>d + timedelta(days=1)\<close> and \<^verbatim>\<open>d + timedelta(days=-1)\<close>: the calendar successor and
  predecessor of a date; leaving the supported range raises \<^verbatim>\<open>OverflowError\<close>.
\<close>

definition next_day :: "date \<Rightarrow> error + date" where
  "next_day d =
     (if day d < days_in_month (year d) (month d) then Inr (Date (year d) (month d) (day d + 1))
      else if month d < 12 then Inr (Date (year d) (month d + 1) 1)
      else if year d + 1 > MAXYEAR then Inl OverflowError
      else Inr (Date (year d + 1) 1 1))"

definition prev_day :: "date \<Rightarrow> error + date" where
  "prev_day d =
     (if day d > 1 then Inr (Date (year d) (month d) (day d - 1))
      else if month d > 1 then
        Inr (Date (year d) (month d - 1) (days_in_month (year d) (month d - 1)))
      else if year d - 1 < MINYEAR then Inl OverflowError
      else Inr (Date (year d - 1) 12 31))"

fun forward_days :: "date \<Rightarrow> nat \<Rightarrow> error + date" where
  "forward_days d 0 = Inr d"
| "forward_days d (Suc n) =
     (case next_day d of Inl e \<Rightarrow> Inl e | Inr d' \<Rightarrow> forward_days d' n)"

fun backward_days :: "date \<Rightarrow> nat \<Rightarrow> error + date" where
  "backward_days d 0 = Inr d"
| "backward_days d (Suc n) =
     (case prev_day d of Inl e \<Rightarrow> Inl e | Inr d' \<Rightarrow> backward_days d' n)"

text \<open>\<^verbatim>\<open>d + timedelta(days=n)\<close> for any integer \<open>n\<close>.\<close>

definition add_days :: "date \<Rightarrow> int \<Rightarrow> error + date" where
  "add_days d n = (if 0 \<le> n then forward_days d (nat n) else backward_days d (nat (- n)))"

section \<open>Formatting\<close>

definition digit_char :: "nat \<Rightarrow> char" where
  "digit_char n = ''0123456789'' ! (n mod 10)"

definition pad2 :: "nat \<Rightarrow> string" where
  "pad2 n = [digit_char (n div 10), digit_char n]"

text \<open>Decimal numerals without padding, as \<^verbatim>\<open>str(n)\<close> writes them.\<close>

fun dec :: "nat \<Rightarrow> string" where
  "dec n = (if n < 10 then [digit_char n] else dec (n div 10) @ [digit_char n])"

declare dec.simps [simp del]

lemma dec_numeral [simp]:
  "dec (numeral k) =
     (if numeral k < (10::nat) then [digit_char (numeral k)]
      else dec (numeral k div 10) @ [digit_char (numeral k)])"
  "dec 0 = [digit_char 0]" "dec (Suc 0) = [digit_char (Suc 0)]"
  by (subst dec.simps, simp)+

text \<open>
  \<^verbatim>\<open>d.strftime('%Y-%m-%d')\<close>. The directive \<^verbatim>\<open>%Y\<close> is passed to the C library, which writes
  the year without padding (\<^verbatim>\<open>date(999, 1, 7).strftime('%Y-%m-%d')\<close> is \<^verbatim>\<open>999-01-07\<close>);
  \<^verbatim>\<open>%m\<close> and \<^verbatim>\<open>%d\<close> write two digits.
\<close>

definition strftime :: "date \<Rightarrow> string" where
  "strftime d = dec (year d) @ ''-'' @ pad2 (month d) @ ''-'' @ pad2 (day d)"

section \<open>The generator and its business days\<close>

text \<open>
  An instance of \<^verbatim>\<open>ScheduleGenerator\<close> holds the holiday set (strings \<^verbatim>\<open>YYYY-MM-DD\<close>) and
  the direction of adjustment. \<^verbatim>\<open>__init__\<close> with an explicit holiday list accepts the
  directions \<^verbatim>\<open>forward\<close> and \<^verbatim>\<open>backward\<close> only.
\<close>

record generator =
  holidays :: "string set"
  business_day_adjustment :: string

definition ScheduleGenerator :: "string list \<Rightarrow> string \<Rightarrow> error + generator" where
  "ScheduleGenerator hs adj =
     (if adj \<noteq> ''forward'' \<and> adj \<noteq> ''backward''
      then Inl (ValueError ''business_day_adjustment must be 'forward' or 'backward' '')
      else Inr \<lparr>holidays = set hs, business_day_adjustment = adj\<rparr>)"

definition is_business_day :: "generator \<Rightarrow> date \<Rightarrow> bool" where
  "is_business_day sg d \<longleftrightarrow> weekday d < 5 \<and> strftime d \<notin> holidays sg"

definition step_day :: "bool \<Rightarrow> date \<Rightarrow> error + date" where
  "step_day forward d = (if forward then next_day d else prev_day d)"

definition no_business_day_msg :: string where
  "no_business_day_msg =
     ''Unable to find a business day within 10 days. Check holiday/weekend configuration.''"

text \<open>The \<^verbatim>\<open>while\<close> loop of \<^verbatim>\<open>_adjust_to_business_day\<close>, with its counter \<open>attempts\<close>.\<close>

function adjust_loop :: "generator \<Rightarrow> bool \<Rightarrow> date \<Rightarrow> nat \<Rightarrow> error + date" where
  "adjust_loop sg forward d attempts =
     (if \<not> is_business_day sg d then
        (case step_day forward d of
           Inl e \<Rightarrow> Inl e
         | Inr d' \<Rightarrow>
             if attempts + 1 > 10 then Inl (RuntimeError no_business_day_msg)
             else adjust_loop sg forward d' (attempts + 1))
      else Inr d)"
  by pat_completeness auto
termination
  by (relation "measure (\<lambda>(sg, forward, d, attempts). 11 - attempts)") auto

definition adjust_to_business_day :: "generator \<Rightarrow> date \<Rightarrow> bool \<Rightarrow> error + date" where
  "adjust_to_business_day sg d forward = adjust_loop sg forward d 0"

text \<open>The \<open>k\<close>-th date reached from \<open>d\<close> by single steps in the direction of adjustment.\<close>

fun steps :: "bool \<Rightarrow> date \<Rightarrow> nat \<Rightarrow> error + date" where
  "steps forward d 0 = Inr d"
| "steps forward d (Suc k) =
     (case step_day forward d of Inl e \<Rightarrow> Inl e | Inr d' \<Rightarrow> steps forward d' k)"


section \<open>Dictionaries and strings\<close>

type_synonym pydict = "string \<rightharpoonup> pyval"

text \<open>\<^verbatim>\<open>m[key]\<close>, and \<^verbatim>\<open>m[key]\<close> used as a string.\<close>

definition get_item :: "pydict \<Rightarrow> string \<Rightarrow> error + pyval" where
  "get_item m key = (case m key of None \<Rightarrow> Inl (KeyError key) | Some v \<Rightarrow> Inr v)"

definition get_str :: "pydict \<Rightarrow> string \<Rightarrow> error + string" where
  "get_str m key =
     (case m key of
        None \<Rightarrow> Inl (KeyError key)
      | Some (PStr s) \<Rightarrow> Inr s
      | Some _ \<Rightarrow> Inl TypeError)"

text \<open>The format \<^verbatim>\<open>{idx:03d}\<close>, and \<^verbatim>\<open>str\<close> of a value.\<close>

definition fmt03 :: "nat \<Rightarrow> string" where
  "fmt03 idx = replicate (3 - length (dec idx)) CHR ''0'' @ dec idx"

fun py_str :: "pyval \<Rightarrow> string" where
  "py_str (PStr s) = s"
| "py_str (PInt i) = (if i < 0 then ''-'' @ dec (nat (- i)) else dec (nat i))"
| "py_str PNone = ''None''"

definition is_digit :: "char \<Rightarrow> bool" where
  "is_digit c \<longleftrightarrow> c \<in> set ''0123456789''"

definition is_upper :: "char \<Rightarrow> bool" where
  "is_upper c \<longleftrightarrow> c \<in> set ''ABCDEFGHIJKLMNOPQRSTUVWXYZ''"

definition is_lower :: "char \<Rightarrow> bool" where
  "is_lower c \<longleftrightarrow> c \<in> set ''abcdefghijklmnopqrstuvwxyz''"

definition digit_val :: "char \<Rightarrow> nat" where
  "digit_val c = of_char c - 48"

definition number2 :: "char \<Rightarrow> char \<Rightarrow> nat" where
  "number2 a b = 10 * digit_val a + digit_val b"

text \<open>
  \<^verbatim>\<open>str.lower()\<close> on the letters A to Z. No other 8-bit character becomes an ASCII letter,
  so the comparison of a lowered frequency with the five allowed words is not affected.
\<close>

definition lower_char :: "char \<Rightarrow> char" where
  "lower_char c = (if is_upper c then char_of (of_char c + (32::nat)) else c)"

definition lower :: "string \<Rightarrow> string" where
  "lower s = map lower_char s"

section \<open>Parsing dates\<close>

text \<open>
  \<^verbatim>\<open>datetime.strptime(s, '%Y-%m-%d').date()\<close>. The directive \<^verbatim>\<open>%Y\<close> reads four digits,
  \<^verbatim>\<open>%m\<close> reads \<^verbatim>\<open>1[0-2]|0[1-9]|[1-9]\<close>, \<^verbatim>\<open>%d\<close> reads
  \<^verbatim>\<open>3[01]|[12]\d|0[1-9]|[1-9]| [1-9]\<close>, and nothing may follow the day. A year 0 and a
  day beyond the end of the month are refused. \<open>None\<close> is any exception of the parser.
\<close>

fun parse_year :: "string \<Rightarrow> (nat \<times> string) option" where
  "parse_year (a # b # c # d # e # rest) =
     (if is_digit a \<and> is_digit b \<and> is_digit c \<and> is_digit d \<and> e = CHR ''-''
      then Some (1000 * digit_val a + 100 * digit_val b + 10 * digit_val c + digit_val d, rest)
      else None)"
| "parse_year _ = None"

fun parse_month :: "string \<Rightarrow> (nat \<times> string) option" where
  "parse_month (a # b # rest) =
     (if b = CHR ''-'' then
        (if is_digit a \<and> a \<noteq> CHR ''0'' then Some (digit_val a, rest) else None)
      else
        (case rest of
           [] \<Rightarrow> None
         | c # rest' \<Rightarrow>
             if c = CHR ''-'' \<and> is_digit a \<and> is_digit b \<and> 1 \<le> number2 a b \<and> number2 a b \<le> 12
             then Some (number2 a b, rest') else None))"
| "parse_month _ = None"

fun parse_day :: "string \<Rightarrow> nat option" where
  "parse_day [a] = (if is_digit a \<and> a \<noteq> CHR ''0'' then Some (digit_val a) else None)"
| "parse_day [a, b] =
     (if a = CHR '' '' then
        (if is_digit b \<and> b \<noteq> CHR ''0'' then Some (digit_val b) else None)
      else if is_digit a \<and> is_digit b \<and> 1 \<le> number2 a b \<and> number2 a b \<le> 31
      then Some (number2 a b) else None)"
| "parse_day _ = None"

definition strptime :: "string \<Rightarrow> date option" where
  "strptime s =
     (case parse_year s of
        None \<Rightarrow> None
      | Some (y, rest) \<Rightarrow>
          (case parse_month rest of
             None \<Rightarrow> None
           | Some (m, rest') \<Rightarrow>
               (case parse_day rest' of
                  None \<Rightarrow> None
                | Some d \<Rightarrow>
                    if y < MINYEAR \<or> d > days_in_month y m then None
                    else Some (Date y m d))))"

definition strptime_msg :: string where
  "strptime_msg = ''time data does not match format '%Y-%m-%d' ''"

text \<open>\<^verbatim>\<open>datetime.strptime(transaction[key], '%Y-%m-%d').date()\<close>\<close>

definition date_field :: "pydict \<Rightarrow> string \<Rightarrow> error + date" where
  "date_field transaction key =
     (case get_str transaction key of
        Inl e \<Rightarrow> Inl e
      | Inr s \<Rightarrow> (case strptime s of None \<Rightarrow> Inl (ValueError strptime_msg) | Some d \<Rightarrow> Inr d))"

section \<open>Validation\<close>

text \<open>
  The loop over the required keys, the same in \<^verbatim>\<open>_validate_transaction\<close> (with
  \<open>what = ''Transaction''\<close>) and in \<^verbatim>\<open>_validate_covenant\<close> (with \<open>what = ''Covenant''\<close>).
\<close>

fun check_required :: "string \<Rightarrow> pydict \<Rightarrow> string list \<Rightarrow> error + unit" where
  "check_required what m [] = Inr ()"
| "check_required what m (key # keys) =
     (case m key of
        None \<Rightarrow> Inl (ValueError (what @ '' missing required field: '' @ key))
      | Some (PStr s) \<Rightarrow> check_required what m keys
      | Some _ \<Rightarrow> Inl (ValueError (what @ '' field '' @ key @ '' must be a string'')))"

fun check_date_formats :: "pydict \<Rightarrow> string list \<Rightarrow> error + unit" where
  "check_date_formats transaction [] = Inr ()"
| "check_date_formats transaction (d # ds) =
     (case date_field transaction d of
        Inl e \<Rightarrow> Inl (ValueError (''Transaction '' @ d @ '' must be in YYYY-MM-DD format''))
      | Inr v \<Rightarrow> check_date_formats transaction ds)"

definition validate_transaction :: "pydict \<Rightarrow> error + unit" where
  "validate_transaction transaction =
     (case check_required ''Transaction'' transaction
             [''transaction_id'', ''name'', ''start_date'', ''end_date''] of
        Inl e \<Rightarrow> Inl e
      | Inr u \<Rightarrow>
     (case check_date_formats transaction [''start_date'', ''end_date''] of
        Inl e \<Rightarrow> Inl e
      | Inr u \<Rightarrow>
     (case date_field transaction ''start_date'' of
        Inl e \<Rightarrow> Inl e
      | Inr start \<Rightarrow>
     (case date_field transaction ''end_date'' of
        Inl e \<Rightarrow> Inl e
      | Inr end' \<Rightarrow>
          if start > end'
          then Inl (ValueError ''Transaction start_date must be before or equal to end_date'')
          else Inr ()))))"

definition allowed_frequencies :: "string set" where
  "allowed_frequencies = {''daily'', ''weekly'', ''monthly'', ''quarterly'', ''annually''}"

text \<open>
  \<^verbatim>\<open>re.match(r"^[A-Za-z0-9._%+-]+@[A-Za-z0-9.-]+\.[A-Za-z]{2,}$", s)\<close>. The first class has
  no \<^verbatim>\<open>@\<close>, so the local part ends at the first \<^verbatim>\<open>@\<close>; the last group has no dot, so it
  starts after the last dot; \<^verbatim>\<open>$\<close> also matches before a newline that ends the string.
\<close>

definition is_alpha :: "char \<Rightarrow> bool" where
  "is_alpha c \<longleftrightarrow> is_upper c \<or> is_lower c"

definition local_char :: "char \<Rightarrow> bool" where
  "local_char c \<longleftrightarrow> is_alpha c \<or> is_digit c \<or> c \<in> set ''._%+-''"

definition domain_char :: "char \<Rightarrow> bool" where
  "domain_char c \<longleftrightarrow> is_alpha c \<or> is_digit c \<or> c \<in> set ''.-''"

definition email_core :: "string \<Rightarrow> bool" where
  "email_core s =
     (let local = takeWhile (\<lambda>c. c \<noteq> CHR ''@'') s;
          rest = drop (length local + 1) s;
          tld = rev (takeWhile (\<lambda>c. c \<noteq> CHR ''.'') (rev rest));
          dom = take (length rest - length tld - 1) rest
      in length local < length s \<and> local \<noteq> [] \<and> list_all local_char local \<and>
         length tld < length rest \<and> dom \<noteq> [] \<and> list_all domain_char dom \<and>
         2 \<le> length tld \<and> list_all is_alpha tld)"

definition email_match :: "string \<Rightarrow> bool" where
  "email_match s \<longleftrightarrow>
     email_core s \<or> (s \<noteq> [] \<and> last s = CHR 0x0A \<and> email_core (butlast s))"

definition validate_covenant :: "pydict \<Rightarrow> error + unit" where
  "validate_covenant covenant =
     (case check_required ''Covenant'' covenant
             [''covenant_id'', ''transaction_id'', ''description'', ''frequency'', ''owner_email''] of
        Inl e \<Rightarrow> Inl e
      | Inr u \<Rightarrow>
     (case get_str covenant ''frequency'' of
        Inl e \<Rightarrow> Inl e
      | Inr frequency \<Rightarrow>
          if lower frequency \<notin> allowed_frequencies
          then Inl (ValueError ''Covenant frequency must be one of the allowed frequencies'')
          else
     (case get_str covenant ''owner_email'' of
        Inl e \<Rightarrow> Inl e
      | Inr owner_email \<Rightarrow>
          if \<not> email_match owner_email
          then Inl (ValueError (''Covenant owner_email is not a valid email address: '' @ owner_email))
          else Inr ())))"

section \<open>Schedule entries\<close>

record entry =
  schedule_id :: string
  covenant_id :: pyval
  due_date :: string
  status :: string
  period_start :: string
  period_end :: string

definition make_schedule_entry ::
  "pydict \<Rightarrow> nat \<Rightarrow> date \<Rightarrow> date \<Rightarrow> date \<Rightarrow> error + entry" where
  "make_schedule_entry covenant idx due period_start' period_end' =
     (case get_item covenant ''covenant_id'' of
        Inl e \<Rightarrow> Inl e
      | Inr cid \<Rightarrow>
          Inr \<lparr>schedule_id = ''SCH-'' @ py_str cid @ ''-'' @ fmt03 idx,
               covenant_id = cid,
               due_date = strftime due,
               status = ''pending'',
               period_start = strftime period_start',
               period_end = strftime period_end'\<rparr>)"

text \<open>The entry that \<^verbatim>\<open>_make_schedule_entry\<close> builds for a covenant identifier.\<close>

definition entry_of :: "pyval \<Rightarrow> nat \<Rightarrow> date \<Rightarrow> date \<Rightarrow> date \<Rightarrow> entry" where
  "entry_of cid idx due period_start' period_end' =
     \<lparr>schedule_id = ''SCH-'' @ py_str cid @ ''-'' @ fmt03 idx,
      covenant_id = cid,
      due_date = strftime due,
      status = ''pending'',
      period_start = strftime period_start',
      period_end = strftime period_end'\<rparr>"

text \<open>\<^verbatim>\<open>forward=(self.business_day_adjustment == 'forward')\<close>\<close>

definition forward :: "generator \<Rightarrow> bool" where
  "forward sg \<longleftrightarrow> business_day_adjustment sg = ''forward''"

text \<open>
  The two lines \<^verbatim>\<open>if not self._is_business_day(d): d = self._adjust_to_business_day(d, ...)\<close>
  of the weekly and the periodic generators.
\<close>

definition adjust_if_needed :: "generator \<Rightarrow> date \<Rightarrow> error + date" where
  "adjust_if_needed sg d =
     (if \<not> is_business_day sg d then adjust_to_business_day sg d (forward sg) else Inr d)"


section \<open>Month arithmetic\<close>

text \<open>
  \<^verbatim>\<open>d + relativedelta(months=n)\<close>: whole years are carried out of \<open>n\<close> first, the month is
  advanced, the day is cut to the length of the new month, and \<^verbatim>\<open>date.replace\<close> refuses a
  year beyond 9999 with a \<^verbatim>\<open>ValueError\<close>.
\<close>

definition add_months :: "date \<Rightarrow> nat \<Rightarrow> error + date" where
  "add_months d n =
     (let y0 = year d + n div 12;
          m0 = month d + n mod 12;
          y = (if m0 > 12 then y0 + 1 else y0);
          m = (if m0 > 12 then m0 - 12 else m0);
          dd = min (days_in_month y m) (day d)
      in if y > MAXYEAR then Inl (ValueError ''year is out of range'')
         else Inr (Date y m dd))"

section \<open>Termination of the daily and weekly loops\<close>

definition date_pos :: "date \<Rightarrow> nat" where
  "date_pos d = year d * 500 + min (month d) 12 * 32 + min (day d) 31"

lemma days_in_month_le_31: "days_in_month y m \<le> 31"
  by (simp add: days_in_month_def)

lemma next_day_pos: "next_day d = Inr d' \<Longrightarrow> date_pos d < date_pos d'"
  using days_in_month_le_31[of "year d" "month d"]
  by (auto simp: next_day_def date_pos_def split: if_splits)

lemma forward_days_pos: "forward_days d n = Inr d' \<Longrightarrow> date_pos d + n \<le> date_pos d'"
proof (induction n arbitrary: d)
  case 0
  then show ?case by simp
next
  case (Suc n)
  then obtain d1 where "next_day d = Inr d1" "forward_days d1 n = Inr d'"
    by (auto split: sum.splits)
  with Suc.IH[of d1] next_day_pos[of d d1] show ?case by simp
qed

lemma less_date_pos: "d < e \<Longrightarrow> date_pos d < (year e + 1) * 500"
  by (cases d; cases e) (auto simp: less_date_def date_key_def date_pos_def)

definition date_gap :: "date \<Rightarrow> date \<Rightarrow> nat" where
  "date_gap e d = (year e + 1) * 500 - date_pos d"

lemma add_days_gap:
  "add_days d n = Inr d' \<Longrightarrow> 0 < n \<Longrightarrow> d < e \<Longrightarrow> date_gap e d' < date_gap e d"
  using forward_days_pos[of d "nat n" d'] less_date_pos[of d e]
  by (auto simp: add_days_def date_gap_def)

section \<open>The generators\<close>

function weekly_loop ::
  "generator \<Rightarrow> pydict \<Rightarrow> date \<Rightarrow> entry list \<Rightarrow> nat \<Rightarrow> date \<Rightarrow> error + entry list" where
  "weekly_loop sg covenant end' schedules idx period_start' =
     (if period_start' < end' then
        (case add_days period_start' 6 of
           Inl e \<Rightarrow> Inl e
         | Inr period_end' \<Rightarrow>
        (case add_days period_start' 7 of
           Inl e \<Rightarrow> Inl e
         | Inr due0 \<Rightarrow>
        (case adjust_if_needed sg due0 of
           Inl e \<Rightarrow> Inl e
         | Inr due \<Rightarrow>
             if due > end' then Inr schedules
             else
        (case make_schedule_entry covenant idx due period_start' period_end' of
           Inl e \<Rightarrow> Inl e
         | Inr entry \<Rightarrow>
        (case add_days period_start' 7 of
           Inl e \<Rightarrow> Inl e
         | Inr next_start \<Rightarrow>
             weekly_loop sg covenant end' (schedules @ [entry]) (idx + 1) next_start)))))
      else Inr schedules)"
  by pat_completeness auto
termination
  by (relation "measure (\<lambda>(sg, covenant, end', schedules, idx, d). date_gap end' d)")
     (auto intro: add_days_gap)

definition generate_weekly_schedules :: "generator \<Rightarrow> pydict \<Rightarrow> pydict \<Rightarrow> error + entry list" where
  "generate_weekly_schedules sg transaction covenant =
     (case date_field transaction ''start_date'' of
        Inl e \<Rightarrow> Inl e
      | Inr start \<Rightarrow>
     (case date_field transaction ''end_date'' of
        Inl e \<Rightarrow> Inl e
      | Inr end' \<Rightarrow> weekly_loop sg covenant end' [] 1 start))"

function daily_loop ::
  "generator \<Rightarrow> pydict \<Rightarrow> date \<Rightarrow> entry list \<Rightarrow> nat \<Rightarrow> date \<Rightarrow> error + entry list" where
  "daily_loop sg covenant end' schedules idx current =
     (if current < end' then
        (if is_business_day sg current then
           (case add_days current 1 of
              Inl e \<Rightarrow> Inl e
            | Inr due0 \<Rightarrow>
           (case adjust_to_business_day sg due0 (forward sg) of
              Inl e \<Rightarrow> Inl e
            | Inr due \<Rightarrow>
                if due > end' then Inr schedules
                else
           (case make_schedule_entry covenant idx due current current of
              Inl e \<Rightarrow> Inl e
            | Inr entry \<Rightarrow>
           (case add_days current 1 of
              Inl e \<Rightarrow> Inl e
            | Inr current' \<Rightarrow>
                daily_loop sg covenant end' (schedules @ [entry]) (idx + 1) current'))))
         else
           (case add_days current 1 of
              Inl e \<Rightarrow> Inl e
            | Inr current' \<Rightarrow> daily_loop sg covenant end' schedules idx current'))
      else Inr schedules)"
  by pat_completeness auto
termination
  by (relation "measure (\<lambda>(sg, covenant, end', schedules, idx, d). date_gap end' d)")
     (auto intro: add_days_gap)

definition generate_daily_schedules :: "generator \<Rightarrow> pydict \<Rightarrow> pydict \<Rightarrow> error + entry list" where
  "generate_daily_schedules sg transaction covenant =
     (case date_field transaction ''start_date'' of
        Inl e \<Rightarrow> Inl e
      | Inr start \<Rightarrow>
     (case date_field transaction ''end_date'' of
        Inl e \<Rightarrow> Inl e
      | Inr end' \<Rightarrow> daily_loop sg covenant end' [] 1 start))"

text \<open>
  The periodic generator appends entries at two places: the extra February entry of a
  quarterly covenant anchored at a month end, and the regular entry of the period. The
  model records which place appended an entry; the generator returns the entries alone.
\<close>

datatype kind = Extra | Regular

text \<open>The due date of a period before adjustment: the month-end rule, the day of the start
  date or else the last day of the month, and the annual rule for a start on 29 February.\<close>

definition period_due_date :: "nat \<Rightarrow> date \<Rightarrow> nat \<Rightarrow> bool \<Rightarrow> date \<Rightarrow> date" where
  "period_due_date months start orig_day is_month_end next_period_start =
     (let y = year next_period_start;
          m = month next_period_start;
          last = days_in_month y m;
          due = (if is_month_end then Date y m last
                 else if 1 \<le> orig_day \<and> orig_day \<le> last then Date y m orig_day
                 else Date y m last)
      in if months = 12 \<and> month start = 2 \<and> day start = 29
         then (if isleap y then Date y 2 29 else Date y 2 28)
         else due)"

text \<open>The block for the quarterly covenant anchored at a month end, when the next period
  starts in March: it may append an entry due at the end of February.\<close>

definition february_entry ::
  "generator \<Rightarrow> pydict \<Rightarrow> nat \<Rightarrow> date \<Rightarrow> bool \<Rightarrow> (kind \<times> entry) list \<Rightarrow> nat \<Rightarrow> date \<Rightarrow> date \<Rightarrow>
   error + (kind \<times> entry) list \<times> nat" where
  "february_entry sg covenant months end' is_month_end schedules idx period_start' next_period_start =
     (if months = 3 \<and> is_month_end \<and> month next_period_start = 3 then
        (case adjust_if_needed sg
                (Date (year next_period_start) 2 (days_in_month (year next_period_start) 2)) of
           Inl e \<Rightarrow> Inl e
         | Inr feb_due_date \<Rightarrow>
             if feb_due_date \<le> end' then
               (case make_schedule_entry covenant idx feb_due_date period_start' feb_due_date of
                  Inl e \<Rightarrow> Inl e
                | Inr entry \<Rightarrow> Inr (schedules @ [(Extra, entry)], idx + 1))
             else Inr (schedules, idx))
      else Inr (schedules, idx))"

partial_function (option) periodic_loop ::
  "generator \<Rightarrow> pydict \<Rightarrow> nat \<Rightarrow> date \<Rightarrow> date \<Rightarrow> nat \<Rightarrow> bool \<Rightarrow>
   (kind \<times> entry) list \<Rightarrow> nat \<Rightarrow> date \<Rightarrow> (error + (kind \<times> entry) list) option" where
  "periodic_loop sg covenant months start end' orig_day is_month_end schedules idx period_start' =
     (case add_months period_start' months of
        Inl e \<Rightarrow> Some (Inl e)
      | Inr next_period_start \<Rightarrow>
     (case add_days next_period_start (- 1) of
        Inl e \<Rightarrow> Some (Inl e)
      | Inr period_end' \<Rightarrow>
     (case february_entry sg covenant months end' is_month_end schedules idx period_start'
             next_period_start of
        Inl e \<Rightarrow> Some (Inl e)
      | Inr (schedules1, idx1) \<Rightarrow>
          if period_due_date months start orig_day is_month_end next_period_start > end'
          then Some (Inr schedules1)
          else
     (case adjust_if_needed sg
             (period_due_date months start orig_day is_month_end next_period_start) of
        Inl e \<Rightarrow> Some (Inl e)
      | Inr due \<Rightarrow>
     (case make_schedule_entry covenant idx1 due period_start' period_end' of
        Inl e \<Rightarrow> Some (Inl e)
      | Inr entry \<Rightarrow>
          periodic_loop sg covenant months start end' orig_day is_month_end
            (schedules1 @ [(Regular, entry)]) (idx1 + 1) next_period_start)))))"

definition generate_periodic_schedules ::
  "generator \<Rightarrow> pydict \<Rightarrow> pydict \<Rightarrow> nat \<Rightarrow> (error + entry list) option" where
  "generate_periodic_schedules sg transaction covenant months =
     (case date_field transaction ''start_date'' of
        Inl e \<Rightarrow> Some (Inl e)
      | Inr start \<Rightarrow>
     (case date_field transaction ''end_date'' of
        Inl e \<Rightarrow> Some (Inl e)
      | Inr end' \<Rightarrow>
     (case periodic_loop sg covenant months start end' (day start)
             (days_in_month (year start) (month start) = day start) [] 1 start of
        None \<Rightarrow> None
      | Some (Inl e) \<Rightarrow> Some (Inl e)
      | Some (Inr schedules) \<Rightarrow> Some (Inr (map snd schedules)))))"

definition generate_monthly_schedules ::
  "generator \<Rightarrow> pydict \<Rightarrow> pydict \<Rightarrow> (error + entry list) option" where
  "generate_monthly_schedules sg transaction covenant =
     generate_periodic_schedules sg transaction covenant 1"

definition generate_quarterly_schedules ::
  "generator \<Rightarrow> pydict \<Rightarrow> pydict \<Rightarrow> (error + entry list) option" where
  "generate_quarterly_schedules sg transaction covenant =
     generate_periodic_schedules sg transaction covenant 3"

definition generate_annually_schedules ::
  "generator \<Rightarrow> pydict \<Rightarrow> pydict \<Rightarrow> (error + entry list) option" where
  "generate_annually_schedules sg transaction covenant =
     generate_periodic_schedules sg transaction covenant 12"

section \<open>Dispatch\<close>

text \<open>
  \<^verbatim>\<open>getattr(self, f'_generate_{freq}_schedules', None)\<close>: the method of that name, if the
  class has one. A result \<open>None\<close> of a method is a call that does not return.
\<close>

definition generator_method ::
  "string \<Rightarrow> (generator \<Rightarrow> pydict \<Rightarrow> pydict \<Rightarrow> (error + entry list) option) option" where
  "generator_method freq =
     (if freq = ''monthly'' then Some generate_monthly_schedules
      else if freq = ''quarterly'' then Some generate_quarterly_schedules
      else if freq = ''annually'' then Some generate_annually_schedules
      else if freq = ''weekly'' then
        Some (\<lambda>sg transaction covenant. Some (generate_weekly_schedules sg transaction covenant))
      else if freq = ''daily'' then
        Some (\<lambda>sg transaction covenant. Some (generate_daily_schedules sg transaction covenant))
      else None)"

text \<open>
  The loop \<^verbatim>\<open>for cov in covenants\<close> of \<^verbatim>\<open>generate_schedules\<close>. Its first statements
  check the covenant: \<^verbatim>\<open>_validate_covenant\<close>, the transaction identifier, and the
  covenant identifier against the identifiers seen so far.
\<close>

definition check_covenant :: "pydict \<Rightarrow> pyval \<Rightarrow> pyval set \<Rightarrow> error + pyval" where
  "check_covenant cov transaction_id seen_covenant_ids =
     (case validate_covenant cov of
        Inl e \<Rightarrow> Inl e
      | Inr u \<Rightarrow>
     (case get_item cov ''transaction_id'' of
        Inl e \<Rightarrow> Inl e
      | Inr cov_transaction_id \<Rightarrow>
     (case get_item cov ''covenant_id'' of
        Inl e \<Rightarrow> Inl e
      | Inr cid \<Rightarrow>
          if cov_transaction_id \<noteq> transaction_id then
            Inl (ValueError
              (''Covenant '' @ py_str cid @ '' transaction_id does not match transaction''))
          else if cid \<in> seen_covenant_ids then
            Inl (ValueError (''Duplicate covenant_id found: '' @ py_str cid))
          else Inr cid)))"

text \<open>The three tests that skip a covenant whose frequency cannot fit the transaction.\<close>

definition skipped :: "string \<Rightarrow> int \<Rightarrow> bool" where
  "skipped freq duration_days \<longleftrightarrow>
     (freq = ''annually'' \<and> duration_days < 365) \<or>
     (freq = ''quarterly'' \<and> duration_days < 90) \<or>
     (freq = ''monthly'' \<and> duration_days < 28)"

fun covenants_loop ::
  "generator \<Rightarrow> pydict \<Rightarrow> pyval \<Rightarrow> pyval set \<Rightarrow> entry list \<Rightarrow> pydict list \<Rightarrow>
   (error + entry list) option" where
  "covenants_loop sg transaction transaction_id seen_covenant_ids schedules [] =
     Some (Inr schedules)"
| "covenants_loop sg transaction transaction_id seen_covenant_ids schedules (cov # covs) =
     (case check_covenant cov transaction_id seen_covenant_ids of
        Inl e \<Rightarrow> Some (Inl e)
      | Inr cid \<Rightarrow>
     (case get_str cov ''frequency'' of
        Inl e \<Rightarrow> Some (Inl e)
      | Inr frequency \<Rightarrow>
     (case date_field transaction ''start_date'' of
        Inl e \<Rightarrow> Some (Inl e)
      | Inr start \<Rightarrow>
     (case date_field transaction ''end_date'' of
        Inl e \<Rightarrow> Some (Inl e)
      | Inr end' \<Rightarrow>
          if skipped (lower frequency) (toordinal end' - toordinal start) then
            covenants_loop sg transaction transaction_id (insert cid seen_covenant_ids)
              schedules covs
          else
     (case generator_method (lower frequency) of
        None \<Rightarrow> Some (Inl (ValueError (''Unsupported frequency: '' @ lower frequency)))
      | Some method \<Rightarrow>
     (case method sg transaction cov of
        None \<Rightarrow> None
      | Some (Inl e) \<Rightarrow> Some (Inl e)
      | Some (Inr entries) \<Rightarrow>
          covenants_loop sg transaction transaction_id (insert cid seen_covenant_ids)
            (schedules @ entries) covs))))))"

definition generate_schedules ::
  "generator \<Rightarrow> pydict \<Rightarrow> pydict list \<Rightarrow> (error + entry list) option" where
  "generate_schedules sg transaction covenants =
     (case validate_transaction transaction of
        Inl e \<Rightarrow> Some (Inl e)
      | Inr u \<Rightarrow>
     (case get_item transaction ''transaction_id'' of
        Inl e \<Rightarrow> Some (Inl e)
      | Inr transaction_id \<Rightarrow>
          covenants_loop sg transaction transaction_id {} [] covenants))"

section \<open>Evaluation of dates\<close>

lemmas calendar_defs =
  weekday_def toordinal_def days_before_year_def days_before_month_def isleap_def
  days_in_month_def MINYEAR_def MAXYEAR_def

lemmas format_defs = strftime_def pad2_def digit_char_def


section \<open>Facts about dates\<close>

lemma less_date_iff:
  "d < e \<longleftrightarrow> year d < year e \<or> year d = year e \<and> (month d < month e \<or> month d = month e \<and> day d < day e)"
  by (auto simp: less_date_def date_key_def)

lemma less_eq_date_iff:
  "d \<le> e \<longleftrightarrow> year d < year e \<or> year d = year e \<and> (month d < month e \<or> month d = month e \<and> day d \<le> day e)"
  by (auto simp: less_eq_date_def date_key_def)

lemma days_in_month_ge_28: "28 \<le> days_in_month y m"
  by (simp add: days_in_month_def)

lemma days_in_month_12: "days_in_month y 12 = 31"
  by (simp add: days_in_month_def)

lemma next_day_valid: "valid_date d \<Longrightarrow> next_day d = Inr d' \<Longrightarrow> valid_date d'"
  using days_in_month_ge_28[of "year d" "month d + 1"] days_in_month_ge_28[of "year d + 1" 1]
  by (auto simp: next_day_def valid_date_def MINYEAR_def MAXYEAR_def split: if_splits)

lemma prev_day_valid: "valid_date d \<Longrightarrow> prev_day d = Inr d' \<Longrightarrow> valid_date d'"
  using days_in_month_ge_28[of "year d" "month d - 1"]
  by (auto simp: prev_day_def valid_date_def MINYEAR_def MAXYEAR_def days_in_month_12
      split: if_splits)

lemma next_day_greater: "next_day d = Inr d' \<Longrightarrow> d < d'"
  by (auto simp: next_day_def less_date_iff split: if_splits)

lemma prev_day_less: "prev_day d = Inr d' \<Longrightarrow> d' < d"
  by (auto simp: prev_day_def less_date_iff MINYEAR_def split: if_splits)

lemma next_day_least:
  "valid_date d \<Longrightarrow> valid_date e \<Longrightarrow> d < e \<Longrightarrow> next_day d = Inr d' \<Longrightarrow> d' \<le> e"
  by (auto simp: next_day_def less_date_iff less_eq_date_iff valid_date_def split: if_splits)

lemma prev_day_greatest:
  "valid_date d \<Longrightarrow> valid_date e \<Longrightarrow> e < d \<Longrightarrow> prev_day d = Inr d' \<Longrightarrow> e \<le> d'"
proof (cases d; cases e)
  fix y m dd y' m' dd'
  assume v: "valid_date d" "valid_date e" and l: "e < d" and p: "prev_day d = Inr d'"
    and d: "d = Date y m dd" and e: "e = Date y' m' dd'"
  have "dd > 1 \<or> dd = 1 \<and> m > 1 \<or> dd = 1 \<and> m = 1"
    using v(1) d by (simp add: valid_date_def) linarith
  then consider "dd > 1" | "dd = 1" "m > 1" | "dd = 1" "m = 1"
    by blast
  then show ?thesis
  proof cases
    case 1
    with p d e l show ?thesis by (auto simp: prev_day_def less_date_iff less_eq_date_iff)
  next
    case 2
    with p d have d': "d' = Date y (m - 1) (days_in_month y (m - 1))"
      by (simp add: prev_day_def)
    from l d e 2 v(2) have "y' < y \<or> y' = y \<and> m' < m"
      by (auto simp: less_date_iff valid_date_def)
    then have "y' < y \<or> y' = y \<and> m' < m - 1 \<or> y' = y \<and> m' = m - 1"
      by linarith
    with v(2) e d' show ?thesis by (auto simp: less_eq_date_iff valid_date_def)
  next
    case 3
    with p d have d': "d' = Date (y - 1) 12 31"
      by (simp add: prev_day_def split: if_splits)
    from l d e 3 v(2) have "y' < y" by (auto simp: less_date_iff valid_date_def)
    with v(2) e d' days_in_month_le_31[of y' m'] show ?thesis
      by (auto simp: less_eq_date_iff valid_date_def)
  qed
qed

lemma next_day_defined:
  "valid_date d \<Longrightarrow> valid_date e \<Longrightarrow> d < e \<Longrightarrow> \<exists>d'. next_day d = Inr d'"
  by (auto simp: next_day_def less_date_iff valid_date_def MAXYEAR_def)

lemma prev_day_defined:
  "valid_date d \<Longrightarrow> valid_date e \<Longrightarrow> e < d \<Longrightarrow> \<exists>d'. prev_day d = Inr d'"
  by (auto simp: prev_day_def less_date_iff valid_date_def MINYEAR_def)

lemma prev_next_day: "valid_date d \<Longrightarrow> next_day d = Inr d' \<Longrightarrow> prev_day d' = Inr d"
  by (cases d) (auto simp: next_day_def prev_day_def valid_date_def MINYEAR_def days_in_month_12
      split: if_splits)

lemma next_prev_day: "valid_date d \<Longrightarrow> prev_day d = Inr d' \<Longrightarrow> next_day d' = Inr d"
  by (cases d) (auto simp: next_day_def prev_day_def valid_date_def MINYEAR_def MAXYEAR_def
      days_in_month_12 split: if_splits)

lemma add_days_1: "add_days d 1 = next_day d"
  by (simp add: add_days_def split: sum.splits)

lemma add_days_minus_1: "add_days d (- 1) = prev_day d"
  by (simp add: add_days_def split: sum.splits)





section \<open>Parsed dates are dates\<close>

lemma is_digit_val: "is_digit c \<Longrightarrow> digit_val c < 10"
  by (auto simp: is_digit_def digit_val_def)

lemma is_digit_val_pos: "is_digit c \<Longrightarrow> c \<noteq> CHR ''0'' \<Longrightarrow> 1 \<le> digit_val c"
  by (auto simp: is_digit_def digit_val_def)

lemma parse_year_range: "parse_year s = Some (y, rest) \<Longrightarrow> y \<le> 9999"
proof (induction s rule: parse_year.induct)
  case (1 a b c d e rest')
  then have "is_digit a" "is_digit b" "is_digit c" "is_digit d"
    and y: "y = 1000 * digit_val a + 100 * digit_val b + 10 * digit_val c + digit_val d"
    by (auto split: if_splits)
  then show ?case
    using is_digit_val[of a] is_digit_val[of b] is_digit_val[of c] is_digit_val[of d] by simp
qed simp_all

lemma parse_month_range: "parse_month s = Some (m, rest) \<Longrightarrow> 1 \<le> m \<and> m \<le> 12"
proof (induction s rule: parse_month.induct)
  case (1 a b rest')
  then show ?case
    using is_digit_val[of a] is_digit_val_pos[of a]
    by (auto split: if_splits list.splits)
qed simp_all

lemma parse_day_range: "parse_day s = Some d \<Longrightarrow> 1 \<le> d"
proof (induction s rule: parse_day.induct)
  case (1 a)
  then show ?case using is_digit_val_pos[of a] by (auto split: if_splits)
next
  case (2 a b)
  then show ?case using is_digit_val_pos[of b] by (auto split: if_splits)
qed simp_all

lemma strptime_valid: "strptime s = Some d \<Longrightarrow> valid_date d"
  unfolding strptime_def valid_date_def
  by (auto simp: MAXYEAR_def split: option.splits prod.splits if_splits
      dest: parse_year_range parse_month_range parse_day_range)

lemma date_field_valid: "date_field t key = Inr d \<Longrightarrow> valid_date d"
  by (auto simp: date_field_def split: sum.splits option.splits dest: strptime_valid)



section \<open>The daily generator\<close>

declare weekly_loop.simps [simp del] daily_loop.simps [simp del]

lemma daily_loop_all_holidays:
  assumes hol: "\<forall>d. valid_date d \<and> start \<le> d \<and> d < end' \<longrightarrow> strftime d \<in> holidays sg"
    and ve: "valid_date end'"
  shows "valid_date current \<Longrightarrow> start \<le> current \<Longrightarrow>
         daily_loop sg covenant end' schedules idx current = Inr schedules"
  using hol ve
proof (induction sg covenant end' schedules idx current rule: daily_loop.induct)
  case (1 sg covenant end' schedules idx current)
  show ?case
  proof (cases "current < end'")
    case False
    then show ?thesis by (subst daily_loop.simps) simp
  next
    case True
    with "1.prems" have nb: "\<not> is_business_day sg current"
      by (simp add: is_business_day_def)
    from next_day_defined[OF "1.prems"(1) "1.prems"(4) True]
    obtain c' where c': "next_day current = Inr c'" by blast
    then have a: "add_days current 1 = Inr c'" by (simp add: add_days_1)
    have "valid_date c'" using "1.prems"(1) c' by (rule next_day_valid)
    moreover have "start \<le> c'" using "1.prems"(2) next_day_greater[OF c'] by simp
    ultimately have "daily_loop sg covenant end' schedules idx c' = Inr schedules"
      using "1.IH"(2)[OF True nb a] "1.prems"(3,4) by simp
    with True nb a show ?thesis by (subst daily_loop.simps) simp
  qed
qed

lemma generate_daily_all_holidays:
  assumes "date_field transaction ''start_date'' = Inr start"
    and "date_field transaction ''end_date'' = Inr end'"
    and "\<forall>d. valid_date d \<and> start \<le> d \<and> d < end' \<longrightarrow> strftime d \<in> holidays sg"
  shows "generate_daily_schedules sg transaction covenant = Inr []"
  using assms daily_loop_all_holidays[of start end' sg start covenant "[]" 1]
  by (simp add: generate_daily_schedules_def date_field_valid)


section \<open>The periodic loop\<close>

definition month_index :: "date \<Rightarrow> nat" where
  "month_index d = 12 * year d + month d"

lemma add_months_index:
  "add_months d n = Inr d' \<Longrightarrow> month_index d' = month_index d + n \<and> year d' \<le> MAXYEAR"
  unfolding add_months_def month_index_def Let_def
  by (auto split: if_splits)

lemma add_months_month:
  "add_months d n = Inr d' \<Longrightarrow> month d \<le> 12 \<Longrightarrow> 1 \<le> month d \<Longrightarrow> 1 \<le> month d' \<and> month d' \<le> 12"
  unfolding add_months_def Let_def
  by (auto split: if_splits)

text \<open>One pass through the body of the loop.\<close>

lemma periodic_loop_unfold:
  "periodic_loop sg covenant months start end' orig_day is_month_end schedules idx ps =
     (case add_months ps months of
        Inl e \<Rightarrow> Some (Inl e)
      | Inr nps \<Rightarrow>
     (case prev_day nps of
        Inl e \<Rightarrow> Some (Inl e)
      | Inr pe \<Rightarrow>
     (case february_entry sg covenant months end' is_month_end schedules idx ps nps of
        Inl e \<Rightarrow> Some (Inl e)
      | Inr (schedules1, idx1) \<Rightarrow>
          if period_due_date months start orig_day is_month_end nps > end'
          then Some (Inr schedules1)
          else
     (case adjust_if_needed sg (period_due_date months start orig_day is_month_end nps) of
        Inl e \<Rightarrow> Some (Inl e)
      | Inr due \<Rightarrow>
     (case make_schedule_entry covenant idx1 due ps pe of
        Inl e \<Rightarrow> Some (Inl e)
      | Inr entry \<Rightarrow>
          periodic_loop sg covenant months start end' orig_day is_month_end
            (schedules1 @ [(Regular, entry)]) (idx1 + 1) nps)))))"
  unfolding add_days_minus_1[symmetric] by (rule periodic_loop.simps)

lemma periodic_loop_terminates:
  assumes "0 < months"
  shows "1 \<le> month ps \<Longrightarrow> month ps \<le> 12 \<Longrightarrow>
     \<exists>r. periodic_loop sg covenant months start end' orig_day is_month_end schedules idx ps = Some r"
proof (induction "12 * MAXYEAR + 12 - month_index ps" arbitrary: schedules idx ps rule: less_induct)
  case less
  show ?case
  proof (cases "add_months ps months")
    case (Inl e)
    then show ?thesis by (subst periodic_loop_unfold) simp
  next
    case (Inr nps)
    from add_months_index[OF Inr] add_months_month[OF Inr less.prems(2) less.prems(1)] assms
    have m: "12 * MAXYEAR + 12 - month_index nps < 12 * MAXYEAR + 12 - month_index ps"
      and v: "1 \<le> month nps" "month nps \<le> 12"
      by (auto simp: month_index_def)
    note IH = less.hyps[OF m v]
    show ?thesis
      using Inr IH
      by (subst periodic_loop_unfold) (auto split: sum.splits prod.splits)
  qed
qed


section \<open>The business-day adjustment\<close>


lemma adjust_loop_business_day: "is_business_day sg d \<Longrightarrow> adjust_loop sg f d a = Inr d"
  by simp

lemma adjust_loop_returns:
  "adjust_loop sg f d a = Inr r \<Longrightarrow> a \<le> 10 \<Longrightarrow>
   \<exists>k. k + a \<le> 10 \<and> steps f d k = Inr r \<and> is_business_day sg r \<and>
       (\<forall>j<k. \<exists>dj. steps f d j = Inr dj \<and> \<not> is_business_day sg dj)"
proof (induction sg f d a rule: adjust_loop.induct)
  case (1 sg f d a)
  show ?case
  proof (cases "is_business_day sg d")
    case True
    with "1.prems" have "r = d" by simp
    with True "1.prems" show ?thesis by (intro exI[of _ 0]) simp
  next
    case False
    with "1.prems" obtain d' where st: "step_day f d = Inr d'" and a: "\<not> a + 1 > 10"
      and rec: "adjust_loop sg f d' (a + 1) = Inr r"
      by (auto split: sum.splits if_splits)
    from a have "a + 1 \<le> 10" by simp
    from "1.IH"[OF False st a rec this] obtain k where k: "k + (a + 1) \<le> 10" "steps f d' k = Inr r"
      "is_business_day sg r" "\<forall>j<k. \<exists>dj. steps f d' j = Inr dj \<and> \<not> is_business_day sg dj"
      by blast
    have "\<forall>j<Suc k. \<exists>dj. steps f d j = Inr dj \<and> \<not> is_business_day sg dj"
    proof (intro allI impI)
      fix j assume "j < Suc k"
      then show "\<exists>dj. steps f d j = Inr dj \<and> \<not> is_business_day sg dj"
        using False st k(4) by (cases j) auto
    qed
    with k st show ?thesis by (intro exI[of _ "Suc k"]) simp
  qed
qed

lemma adjust_loop_first:
  "steps f d k = Inr r \<Longrightarrow> is_business_day sg r \<Longrightarrow> k + a \<le> 10 \<Longrightarrow>
   (\<forall>j<k. \<forall>dj. steps f d j = Inr dj \<longrightarrow> \<not> is_business_day sg dj) \<Longrightarrow>
   adjust_loop sg f d a = Inr r"
proof (induction k arbitrary: d a)
  case 0
  then show ?case by simp
next
  case (Suc k)
  from Suc.prems(1) obtain d' where st: "step_day f d = Inr d'" and r: "steps f d' k = Inr r"
    by (auto split: sum.splits)
  from Suc.prems(4) have nb: "\<not> is_business_day sg d" by (auto dest: spec[of _ 0])
  have "\<forall>j<k. \<forall>dj. steps f d' j = Inr dj \<longrightarrow> \<not> is_business_day sg dj"
  proof (intro allI impI)
    fix j dj assume "j < k" "steps f d' j = Inr dj"
    with Suc.prems(4) st show "\<not> is_business_day sg dj"
      by (auto dest!: spec[of _ "Suc j"])
  qed
  from Suc.IH[OF r Suc.prems(2) _ this, of "a + 1"] Suc.prems(3)
  have "adjust_loop sg f d' (a + 1) = Inr r" by simp
  with nb st Suc.prems(3) show ?case by simp
qed

lemma adjust_loop_exhausted:
  "(\<forall>j. j + a \<le> 10 \<longrightarrow> (\<exists>dj. steps f d j = Inr dj \<and> \<not> is_business_day sg dj)) \<Longrightarrow>
   a \<le> 10 \<Longrightarrow> steps f d (11 - a) = Inr x \<Longrightarrow>
   adjust_loop sg f d a = Inl (RuntimeError no_business_day_msg)"
proof (induction sg f d a rule: adjust_loop.induct)
  case (1 sg f d a)
  from "1.prems"(1)[rule_format, of 0] "1.prems"(2) have nb: "\<not> is_business_day sg d" by simp
  from "1.prems"(2) have e: "11 - a = Suc (10 - a)" by simp
  from "1.prems"(3) obtain d' where st: "step_day f d = Inr d'" and x: "steps f d' (10 - a) = Inr x"
    unfolding e by (auto split: sum.splits)
  show ?case
  proof (cases "a + 1 > 10")
    case True
    with nb st show ?thesis by simp
  next
    case False
    have h: "\<forall>j. j + (a + 1) \<le> 10 \<longrightarrow> (\<exists>dj. steps f d' j = Inr dj \<and> \<not> is_business_day sg dj)"
    proof (intro allI impI)
      fix j assume "j + (a + 1) \<le> 10"
      then have "Suc j + a \<le> 10" by simp
      from "1.prems"(1)[rule_format, OF this] st
      show "\<exists>dj. steps f d' j = Inr dj \<and> \<not> is_business_day sg dj" by simp
    qed
    have "adjust_loop sg f d' (a + 1) = Inl (RuntimeError no_business_day_msg)"
      using "1.IH"[OF nb st False h] False x by simp
    with nb st False show ?thesis by simp
  qed
qed

lemma adjust_loop_result_business_day:
  "adjust_loop sg f d a = Inr r \<Longrightarrow> is_business_day sg r"
  by (induction sg f d a rule: adjust_loop.induct) (auto split: sum.splits if_splits)

lemma adjust_to_business_day_is_business_day:
  "adjust_to_business_day sg d f = Inr r \<Longrightarrow> is_business_day sg r"
  unfolding adjust_to_business_day_def by (rule adjust_loop_result_business_day)

lemma adjust_if_needed_is_business_day:
  "adjust_if_needed sg d = Inr r \<Longrightarrow> is_business_day sg r"
  by (auto simp: adjust_if_needed_def dest: adjust_to_business_day_is_business_day
      split: if_splits)




section \<open>The loop over the covenants\<close>



lemma covenants_loop_skip:
  assumes "date_field transaction ''start_date'' = Inr start"
    and "date_field transaction ''end_date'' = Inr end'"
    and "check_covenant cov transaction_id seen = Inr cid"
    and "get_str cov ''frequency'' = Inr frequency"
    and "skipped (lower frequency) (toordinal end' - toordinal start)"
  shows "covenants_loop sg transaction transaction_id seen schedules (cov # covs) =
         covenants_loop sg transaction transaction_id (insert cid seen) schedules covs"
  using assms by simp

text \<open>
  C7. A covenant that passes the checks of the loop, and whose frequency is
  \<^verbatim>\<open>annually\<close> with a duration below 365 days, \<^verbatim>\<open>quarterly\<close> below 90 days or
  \<^verbatim>\<open>monthly\<close> below 28 days (the duration being \<^verbatim>\<open>(end - start).days\<close>), adds no entry and
  raises nothing: the loop goes on with the next covenant and the schedules it had. A batch
  of this single covenant returns the empty list.
\<close>

theorem feasibility_gate_skips:
  assumes "validate_transaction transaction = Inr ()"
    and "transaction ''transaction_id'' = Some transaction_id"
    and "date_field transaction ''start_date'' = Inr start"
    and "date_field transaction ''end_date'' = Inr end'"
    and "get_str cov ''frequency'' = Inr frequency"
    and "(lower frequency = ''annually'' \<and> toordinal end' - toordinal start < 365) \<or>
         (lower frequency = ''quarterly'' \<and> toordinal end' - toordinal start < 90) \<or>
         (lower frequency = ''monthly'' \<and> toordinal end' - toordinal start < 28)"
  shows "(check_covenant cov transaction_id seen = Inr cid \<longrightarrow>
           covenants_loop sg transaction transaction_id seen schedules (cov # covs) =
           covenants_loop sg transaction transaction_id (insert cid seen) schedules covs) \<and>
         (check_covenant cov transaction_id {} = Inr cid \<longrightarrow>
           generate_schedules sg transaction [cov] = Some (Inr []))"
proof -
  from assms(6) have s: "skipped (lower frequency) (toordinal end' - toordinal start)"
    by (simp add: skipped_def)
  show ?thesis
  proof (intro conjI impI)
    assume c: "check_covenant cov transaction_id seen = Inr cid"
    show "covenants_loop sg transaction transaction_id seen schedules (cov # covs) =
           covenants_loop sg transaction transaction_id (insert cid seen) schedules covs"
      by (rule covenants_loop_skip[OF assms(3,4) c assms(5) s])
  next
    assume "check_covenant cov transaction_id {} = Inr cid"
    from covenants_loop_skip[OF assms(3,4) this assms(5) s, of sg "[]" "[]"] assms(1,2)
    show "generate_schedules sg transaction [cov] = Some (Inr [])"
      by (simp add: generate_schedules_def get_item_def)
  qed
qed

text \<open>
  C9. When every calendar day from the start date up to, and not including, the end date is
  in the holiday set, the daily generator returns no entry and raises nothing, and so does
  \<^verbatim>\<open>generate_schedules\<close> for a batch of one daily covenant: no day of the range is a
  business day, so no due date is computed and no adjustment is attempted.
\<close>

theorem daily_all_holidays_no_entries:
  assumes "validate_transaction transaction = Inr ()"
    and "transaction ''transaction_id'' = Some transaction_id"
    and "date_field transaction ''start_date'' = Inr start"
    and "date_field transaction ''end_date'' = Inr end'"
    and "check_covenant cov transaction_id {} = Inr cid"
    and "get_str cov ''frequency'' = Inr frequency"
    and "lower frequency = ''daily''"
    and "\<forall>d. valid_date d \<and> start \<le> d \<and> d < end' \<longrightarrow> strftime d \<in> holidays sg"
  shows "generate_daily_schedules sg transaction cov = Inr [] \<and>
         generate_schedules sg transaction [cov] = Some (Inr [])"
proof -
  have d: "generate_daily_schedules sg transaction cov = Inr []"
    using assms(3,4,8) by (rule generate_daily_all_holidays)
  have "\<not> skipped (lower frequency) (toordinal end' - toordinal start)"
    using assms(7) by (simp add: skipped_def)
  with assms d have "generate_schedules sg transaction [cov] = Some (Inr [])"
    by (simp add: generate_schedules_def get_item_def generator_method_def)
  with d show ?thesis by simp
qed


section \<open>Sample inputs\<close>

text \<open>The transactions and covenants that the tests of the repository build.\<close>

definition sample_transaction :: "string \<Rightarrow> string \<Rightarrow> pydict" where
  "sample_transaction start end' =
     [''transaction_id'' \<mapsto> PStr ''TXN-TEST'', ''name'' \<mapsto> PStr ''Test Transaction'',
      ''start_date'' \<mapsto> PStr start, ''end_date'' \<mapsto> PStr end']"

definition sample_covenant :: "string \<Rightarrow> string \<Rightarrow> pydict" where
  "sample_covenant freq cid =
     [''covenant_id'' \<mapsto> PStr cid, ''transaction_id'' \<mapsto> PStr ''TXN-TEST'',
      ''description'' \<mapsto> PStr ''Covenant'', ''frequency'' \<mapsto> PStr freq,
      ''owner_email'' \<mapsto> PStr ''test@company.com'']"

lemmas parse_defs = strptime_def is_digit_def digit_val_def number2_def

lemma sample_transaction_dates:
  "strptime s = Some a \<Longrightarrow> date_field (sample_transaction s e) ''start_date'' = Inr a"
  "strptime e = Some b \<Longrightarrow> date_field (sample_transaction s e) ''end_date'' = Inr b"
  by (simp_all add: date_field_def get_str_def sample_transaction_def)

lemma sample_transaction_id:
  "sample_transaction s e ''transaction_id'' = Some (PStr ''TXN-TEST'')"
  by (simp add: sample_transaction_def)

lemma sample_transaction_required:
  "check_required ''Transaction'' (sample_transaction s e)
     [''transaction_id'', ''name'', ''start_date'', ''end_date''] = Inr ()"
  by (simp add: sample_transaction_def)

lemma sample_transaction_valid:
  "strptime s = Some a \<Longrightarrow> strptime e = Some b \<Longrightarrow> a \<le> b \<Longrightarrow>
   validate_transaction (sample_transaction s e) = Inr ()"
  unfolding validate_transaction_def sample_transaction_required
  by (simp add: sample_transaction_dates)

lemma sample_email: "email_match ''test@company.com''"
  by (simp add: email_match_def email_core_def Let_def local_char_def domain_char_def
      is_alpha_def is_upper_def is_lower_def is_digit_def)

lemma sample_covenant_frequency: "get_str (sample_covenant f c) ''frequency'' = Inr f"
  by (simp add: get_str_def sample_covenant_def)

lemma sample_covenant_required:
  "check_required ''Covenant'' (sample_covenant f c)
     [''covenant_id'', ''transaction_id'', ''description'', ''frequency'', ''owner_email''] = Inr ()"
  by (simp add: sample_covenant_def)

lemma sample_covenant_email:
  "get_str (sample_covenant f c) ''owner_email'' = Inr ''test@company.com''"
  by (simp add: get_str_def sample_covenant_def)

lemma sample_covenant_valid:
  "lower f \<in> allowed_frequencies \<Longrightarrow> validate_covenant (sample_covenant f c) = Inr ()"
  unfolding validate_covenant_def sample_covenant_required
  by (simp add: sample_covenant_frequency sample_covenant_email sample_email)

lemma sample_covenant_ids:
  "get_item (sample_covenant f c) ''transaction_id'' = Inr (PStr ''TXN-TEST'')"
  "get_item (sample_covenant f c) ''covenant_id'' = Inr (PStr c)"
  by (simp_all add: sample_covenant_def get_item_def)

lemma sample_covenant_check:
  "lower f \<in> allowed_frequencies \<Longrightarrow> PStr c \<notin> seen \<Longrightarrow>
   check_covenant (sample_covenant f c) (PStr ''TXN-TEST'') seen = Inr (PStr c)"
  by (simp add: check_covenant_def sample_covenant_valid sample_covenant_ids)

lemma lower_frequencies:
  "lower ''daily'' = ''daily''" "lower ''weekly'' = ''weekly''" "lower ''monthly'' = ''monthly''"
  "lower ''quarterly'' = ''quarterly''" "lower ''annually'' = ''annually''"
  by (simp_all add: lower_def lower_char_def is_upper_def)

theorem feasibility_gate_skips_witness:
  "validate_transaction (sample_transaction ''2025-01-01'' ''2025-01-02'') = Inr () \<and>
   toordinal (Date 2025 1 2) - toordinal (Date 2025 1 1) = 1 \<and>
   generate_schedules \<lparr>holidays = {}, business_day_adjustment = ''forward''\<rparr>
     (sample_transaction ''2025-01-01'' ''2025-01-02'') [sample_covenant ''monthly'' ''COV-TEST'']
     = Some (Inr [])"
proof -
  let ?t = "sample_transaction ''2025-01-01'' ''2025-01-02''"
  let ?c = "sample_covenant ''monthly'' ''COV-TEST''"
  have s: "strptime ''2025-01-01'' = Some (Date 2025 1 1)"
    and e: "strptime ''2025-01-02'' = Some (Date 2025 1 2)"
    by (simp_all add: parse_defs calendar_defs)
  have le: "Date 2025 1 1 \<le> Date 2025 1 2" by (simp add: less_eq_date_iff)
  have v: "validate_transaction ?t = Inr ()"
    using s e le by (rule sample_transaction_valid)
  have dur: "toordinal (Date 2025 1 2) - toordinal (Date 2025 1 1) = 1"
    by (simp add: calendar_defs)
  have c: "check_covenant ?c (PStr ''TXN-TEST'') {} = Inr (PStr ''COV-TEST'')"
    by (rule sample_covenant_check) (simp_all add: lower_frequencies allowed_frequencies_def)
  from feasibility_gate_skips[OF v sample_transaction_id sample_transaction_dates(1)[OF s]
      sample_transaction_dates(2)[OF e] sample_covenant_frequency,
      of "''monthly''" "''COV-TEST''" "{}" "PStr ''COV-TEST''"] dur c
  have "generate_schedules \<lparr>holidays = {}, business_day_adjustment = ''forward''\<rparr> ?t [?c]
     = Some (Inr [])"
    by (simp add: lower_frequencies)
  with v dur show ?thesis by simp
qed

theorem daily_all_holidays_no_entries_witness:
  "validate_transaction (sample_transaction ''2025-01-06'' ''2025-01-08'') = Inr () \<and>
   weekday (Date 2025 1 6) = 0 \<and> weekday (Date 2025 1 7) = 1 \<and>
   generate_daily_schedules
     \<lparr>holidays = {''2025-01-06'', ''2025-01-07''}, business_day_adjustment = ''forward''\<rparr>
     (sample_transaction ''2025-01-06'' ''2025-01-08'') (sample_covenant ''daily'' ''COV-TEST'')
     = Inr [] \<and>
   generate_schedules
     \<lparr>holidays = {''2025-01-06'', ''2025-01-07''}, business_day_adjustment = ''forward''\<rparr>
     (sample_transaction ''2025-01-06'' ''2025-01-08'') [sample_covenant ''daily'' ''COV-TEST'']
     = Some (Inr [])"
proof -
  let ?sg = "\<lparr>holidays = {''2025-01-06'', ''2025-01-07''}, business_day_adjustment = ''forward''\<rparr>"
  let ?t = "sample_transaction ''2025-01-06'' ''2025-01-08''"
  let ?c = "sample_covenant ''daily'' ''COV-TEST''"
  have s: "strptime ''2025-01-06'' = Some (Date 2025 1 6)"
    and e: "strptime ''2025-01-08'' = Some (Date 2025 1 8)"
    by (simp_all add: parse_defs calendar_defs)
  have le: "Date 2025 1 6 \<le> Date 2025 1 8" by (simp add: less_eq_date_iff)
  have v: "validate_transaction ?t = Inr ()"
    using s e le by (rule sample_transaction_valid)
  have w: "weekday (Date 2025 1 6) = 0" "weekday (Date 2025 1 7) = 1"
    by (simp_all add: calendar_defs)
  have c: "check_covenant ?c (PStr ''TXN-TEST'') {} = Inr (PStr ''COV-TEST'')"
    by (rule sample_covenant_check) (simp_all add: lower_frequencies allowed_frequencies_def)
  have h: "\<forall>d. valid_date d \<and> Date 2025 1 6 \<le> d \<and> d < Date 2025 1 8 \<longrightarrow>
             strftime d \<in> holidays ?sg"
  proof (intro allI impI)
    fix d assume a: "valid_date d \<and> Date 2025 1 6 \<le> d \<and> d < Date 2025 1 8"
    then have "d = Date 2025 1 6 \<or> d = Date 2025 1 7"
      by (cases d) (auto simp: less_eq_date_iff less_date_iff)
    then show "strftime d \<in> holidays ?sg"
      by (auto simp: format_defs)
  qed
  from daily_all_holidays_no_entries[OF v sample_transaction_id sample_transaction_dates(1)[OF s]
      sample_transaction_dates(2)[OF e] c sample_covenant_frequency lower_frequencies(1) h]
  show ?thesis using v w by simp
qed


section \<open>Evaluating the generators\<close>

lemma make_schedule_entry_eq:
  "covenant ''covenant_id'' = Some cid \<Longrightarrow>
   make_schedule_entry covenant idx due ps pe = Inr (entry_of cid idx due ps pe)"
  by (simp add: make_schedule_entry_def entry_of_def get_item_def)

lemma sample_covenant_id: "sample_covenant f c ''covenant_id'' = Some (PStr c)"
  by (simp add: sample_covenant_def)

lemma no_holidays_business_day:
  "holidays sg = {} \<Longrightarrow> is_business_day sg d \<longleftrightarrow> weekday d < 5"
  by (simp add: is_business_day_def)

lemmas step_defs = step_day_def next_day_def prev_day_def

definition plain_forward :: generator where
  "plain_forward = \<lparr>holidays = {}, business_day_adjustment = ''forward''\<rparr>"

definition plain_backward :: generator where
  "plain_backward = \<lparr>holidays = {}, business_day_adjustment = ''backward''\<rparr>"

lemma plain_generators:
  "holidays plain_forward = {}" "forward plain_forward"
  "holidays plain_backward = {}" "\<not> forward plain_backward"
  by (simp_all add: plain_forward_def plain_backward_def forward_def)

lemma adjust_if_needed_business_day:
  "holidays sg = {} \<Longrightarrow> weekday d < 5 \<Longrightarrow> adjust_if_needed sg d = Inr d"
  by (simp add: adjust_if_needed_def no_holidays_business_day)

lemma weekdays_2025:
  "weekday (Date 2025 6 30) = 0" "weekday (Date 2025 9 30) = 1" "weekday (Date 2025 12 31) = 2"
  "weekday (Date 2026 2 28) = 5" "weekday (Date 2026 3 1) = 6" "weekday (Date 2026 3 2) = 0"
  "weekday (Date 2026 2 27) = 4" "weekday (Date 2026 3 31) = 1"
  by (simp_all add: calendar_defs)

lemma adjust_feb_2026_forward:
  "holidays sg = {} \<Longrightarrow> forward sg \<Longrightarrow> adjust_if_needed sg (Date 2026 2 28) = Inr (Date 2026 3 2)"
  by (simp add: adjust_if_needed_def adjust_to_business_day_def no_holidays_business_day
      weekdays_2025 step_defs calendar_defs)

lemma adjust_feb_2026_backward:
  "holidays sg = {} \<Longrightarrow> \<not> forward sg \<Longrightarrow> adjust_if_needed sg (Date 2026 2 28) = Inr (Date 2026 2 27)"
  by (simp add: adjust_if_needed_def adjust_to_business_day_def no_holidays_business_day
      weekdays_2025 step_defs calendar_defs)

lemma quarterly_pass_5:
  "periodic_loop sg covenant 3 (Date 2025 3 31) (Date 2026 3 31) 31 True S i (Date 2026 3 30)
   = Some (Inr S)"
  by (subst periodic_loop_unfold)
     (simp add: add_months_def Let_def prev_day_def february_entry_def period_due_date_def
        calendar_defs less_date_iff)

lemmas periodic_eval =
  add_months_def Let_def prev_day_def february_entry_def period_due_date_def calendar_defs
  less_date_iff less_eq_date_iff make_schedule_entry_eq adjust_if_needed_business_day

lemma quarterly_pass_4_forward:
  assumes "holidays sg = {}" "forward sg" "covenant ''covenant_id'' = Some cid"
  shows "periodic_loop sg covenant 3 (Date 2025 3 31) (Date 2026 3 31) 31 True S i (Date 2025 12 30)
   = Some (Inr (S @
       [(Extra, entry_of cid i (Date 2026 3 2) (Date 2025 12 30) (Date 2026 3 2)),
        (Regular, entry_of cid (i + 1) (Date 2026 3 31) (Date 2025 12 30) (Date 2026 3 29))]))"
proof -
  have feb: "adjust_if_needed sg (Date 2026 2 28) = Inr (Date 2026 3 2)"
    using assms(1,2) by (rule adjust_feb_2026_forward)
  show ?thesis
    by (subst periodic_loop_unfold)
       (simp add: periodic_eval assms feb weekdays_2025 quarterly_pass_5)
qed

lemma quarterly_pass_4_backward:
  assumes "holidays sg = {}" "\<not> forward sg" "covenant ''covenant_id'' = Some cid"
  shows "periodic_loop sg covenant 3 (Date 2025 3 31) (Date 2026 3 31) 31 True S i (Date 2025 12 30)
   = Some (Inr (S @
       [(Extra, entry_of cid i (Date 2026 2 27) (Date 2025 12 30) (Date 2026 2 27)),
        (Regular, entry_of cid (i + 1) (Date 2026 3 31) (Date 2025 12 30) (Date 2026 3 29))]))"
proof -
  have feb: "adjust_if_needed sg (Date 2026 2 28) = Inr (Date 2026 2 27)"
    using assms(1,2) by (rule adjust_feb_2026_backward)
  show ?thesis
    by (subst periodic_loop_unfold)
       (simp add: periodic_eval assms feb weekdays_2025 quarterly_pass_5)
qed

text \<open>The first three passes do not depend on the direction of adjustment.\<close>

lemma quarterly_passes_1_to_3:
  assumes "holidays sg = {}" "covenant ''covenant_id'' = Some cid"
  shows "periodic_loop sg covenant 3 (Date 2025 3 31) (Date 2026 3 31) 31 True [] 1 (Date 2025 3 31)
   = periodic_loop sg covenant 3 (Date 2025 3 31) (Date 2026 3 31) 31 True
       [(Regular, entry_of cid 1 (Date 2025 6 30) (Date 2025 3 31) (Date 2025 6 29)),
        (Regular, entry_of cid 2 (Date 2025 9 30) (Date 2025 6 30) (Date 2025 9 29)),
        (Regular, entry_of cid 3 (Date 2025 12 31) (Date 2025 9 30) (Date 2025 12 29))]
       4 (Date 2025 12 30)"
proof -
  have 1: "periodic_loop sg covenant 3 (Date 2025 3 31) (Date 2026 3 31) 31 True S i (Date 2025 3 31)
    = periodic_loop sg covenant 3 (Date 2025 3 31) (Date 2026 3 31) 31 True
        (S @ [(Regular, entry_of cid i (Date 2025 6 30) (Date 2025 3 31) (Date 2025 6 29))])
        (i + 1) (Date 2025 6 30)" for S i
    by (subst periodic_loop_unfold) (simp add: periodic_eval assms weekdays_2025)
  have 2: "periodic_loop sg covenant 3 (Date 2025 3 31) (Date 2026 3 31) 31 True S i (Date 2025 6 30)
    = periodic_loop sg covenant 3 (Date 2025 3 31) (Date 2026 3 31) 31 True
        (S @ [(Regular, entry_of cid i (Date 2025 9 30) (Date 2025 6 30) (Date 2025 9 29))])
        (i + 1) (Date 2025 9 30)" for S i
    by (subst periodic_loop_unfold) (simp add: periodic_eval assms weekdays_2025)
  have 3: "periodic_loop sg covenant 3 (Date 2025 3 31) (Date 2026 3 31) 31 True S i (Date 2025 9 30)
    = periodic_loop sg covenant 3 (Date 2025 3 31) (Date 2026 3 31) 31 True
        (S @ [(Regular, entry_of cid i (Date 2025 12 31) (Date 2025 9 30) (Date 2025 12 29))])
        (i + 1) (Date 2025 12 30)" for S i
    by (subst periodic_loop_unfold) (simp add: periodic_eval assms weekdays_2025)
  have idx: "Suc 0 = 1" "Suc 1 = 2" "Suc 2 = 3" "Suc 3 = (4::nat)"
    by simp_all
  show ?thesis
    unfolding 1[of "[]" 1] 2[of _ "1 + 1"] 3[of _ "1 + 1 + 1"]
    by (simp add: idx[symmetric])
qed

lemma generate_schedules_single:
  assumes "validate_transaction t = Inr ()"
    and "t ''transaction_id'' = Some tid"
    and "date_field t ''start_date'' = Inr a"
    and "date_field t ''end_date'' = Inr b"
    and "check_covenant cov tid {} = Inr cid"
    and "get_str cov ''frequency'' = Inr f"
    and "\<not> skipped (lower f) (toordinal b - toordinal a)"
    and "generator_method (lower f) = Some m"
    and "m sg t cov = Some (Inr es)"
  shows "generate_schedules sg t [cov] = Some (Inr es)"
  using assms by (simp add: generate_schedules_def get_item_def)

lemma generate_periodic_schedules_eq:
  assumes "date_field t ''start_date'' = Inr a"
    and "date_field t ''end_date'' = Inr b"
    and "periodic_loop sg cov n a b (day a) (days_in_month (year a) (month a) = day a) [] 1 a
         = Some (Inr S)"
  shows "generate_periodic_schedules sg t cov n = Some (Inr (map snd S))"
  using assms by (simp add: generate_periodic_schedules_def)

lemma generator_methods:
  "generator_method ''monthly'' = Some generate_monthly_schedules"
  "generator_method ''quarterly'' = Some generate_quarterly_schedules"
  "generator_method ''annually'' = Some generate_annually_schedules"
  by (simp_all add: generator_method_def)

lemma sample_quarterly_transaction:
  "strptime ''2025-03-31'' = Some (Date 2025 3 31)" "strptime ''2026-03-31'' = Some (Date 2026 3 31)"
  by (simp_all add: parse_defs calendar_defs)

lemma sample_quarterly_schedules:
  assumes "holidays sg = {}"
    and "periodic_loop sg (sample_covenant ''quarterly'' ''COV-TEST'') 3 (Date 2025 3 31)
           (Date 2026 3 31) 31 True [] 1 (Date 2025 3 31) = Some (Inr S)"
  shows "generate_schedules sg (sample_transaction ''2025-03-31'' ''2026-03-31'')
           [sample_covenant ''quarterly'' ''COV-TEST''] = Some (Inr (map snd S))"
proof -
  let ?t = "sample_transaction ''2025-03-31'' ''2026-03-31''"
  let ?c = "sample_covenant ''quarterly'' ''COV-TEST''"
  note d = sample_transaction_dates(1)[OF sample_quarterly_transaction(1)]
    sample_transaction_dates(2)[OF sample_quarterly_transaction(2)]
  have v: "validate_transaction ?t = Inr ()"
    by (rule sample_transaction_valid[OF sample_quarterly_transaction])
       (simp add: less_eq_date_iff)
  have c: "check_covenant ?c (PStr ''TXN-TEST'') {} = Inr (PStr ''COV-TEST'')"
    by (rule sample_covenant_check) (simp_all add: lower_frequencies allowed_frequencies_def)
  have k: "\<not> skipped (lower ''quarterly'') (toordinal (Date 2026 3 31) - toordinal (Date 2025 3 31))"
    by (simp add: skipped_def lower_frequencies calendar_defs)
  have m: "generator_method (lower ''quarterly'') = Some generate_quarterly_schedules"
    by (simp add: lower_frequencies generator_methods)
  have "periodic_loop sg ?c 3 (Date 2025 3 31) (Date 2026 3 31) (day (Date 2025 3 31))
          (days_in_month (year (Date 2025 3 31)) (month (Date 2025 3 31)) = day (Date 2025 3 31))
          [] 1 (Date 2025 3 31) = Some (Inr S)"
    using assms(2) by (simp add: calendar_defs)
  from generate_periodic_schedules_eq[OF d this]
  have "generate_quarterly_schedules sg ?t ?c = Some (Inr (map snd S))"
    by (simp add: generate_quarterly_schedules_def)
  from generate_schedules_single[OF v sample_transaction_id d c sample_covenant_frequency k m this]
  show ?thesis .
qed

text \<open>
  C5. For the transaction 2025-03-31 to 2026-03-31 with one quarterly covenant and no
  holidays, the loop appends three regular entries (due 2025-06-30, 2025-09-30 and
  2025-12-31, all business days), then the extra February entry, then the regular entry due
  2026-03-31. The February date 2026-02-28 is a Saturday: the extra entry is due on its
  adjustment, 2026-03-02 when adjusting forward and 2026-02-27 when adjusting backward, its
  period starts at the period start 2025-12-30 and ends at that due date, and it stands
  before the regular entry of the same period.
\<close>

theorem quarterly_month_end_scenario:
  "periodic_loop plain_forward (sample_covenant ''quarterly'' ''COV-TEST'') 3 (Date 2025 3 31)
     (Date 2026 3 31) 31 True [] 1 (Date 2025 3 31) =
   Some (Inr
     [(Regular, entry_of (PStr ''COV-TEST'') 1 (Date 2025 6 30) (Date 2025 3 31) (Date 2025 6 29)),
      (Regular, entry_of (PStr ''COV-TEST'') 2 (Date 2025 9 30) (Date 2025 6 30) (Date 2025 9 29)),
      (Regular, entry_of (PStr ''COV-TEST'') 3 (Date 2025 12 31) (Date 2025 9 30) (Date 2025 12 29)),
      (Extra, entry_of (PStr ''COV-TEST'') 4 (Date 2026 3 2) (Date 2025 12 30) (Date 2026 3 2)),
      (Regular, entry_of (PStr ''COV-TEST'') 5 (Date 2026 3 31) (Date 2025 12 30) (Date 2026 3 29))]) \<and>
   map_option (map_sum id (map (\<lambda>e. (due_date e, period_start e, period_end e))))
     (generate_schedules plain_forward (sample_transaction ''2025-03-31'' ''2026-03-31'')
        [sample_covenant ''quarterly'' ''COV-TEST'']) =
   Some (Inr
     [(''2025-06-30'', ''2025-03-31'', ''2025-06-29''),
      (''2025-09-30'', ''2025-06-30'', ''2025-09-29''),
      (''2025-12-31'', ''2025-09-30'', ''2025-12-29''),
      (''2026-03-02'', ''2025-12-30'', ''2026-03-02''),
      (''2026-03-31'', ''2025-12-30'', ''2026-03-29'')]) \<and>
   map (adjust_if_needed plain_forward)
     [Date 2025 6 30, Date 2025 9 30, Date 2025 12 31, Date 2026 2 28, Date 2026 3 31] =
   [Inr (Date 2025 6 30), Inr (Date 2025 9 30), Inr (Date 2025 12 31), Inr (Date 2026 3 2),
    Inr (Date 2026 3 31)] \<and>
   map_option (map_sum id (map (\<lambda>e. (due_date e, period_start e, period_end e))))
     (generate_schedules plain_backward (sample_transaction ''2025-03-31'' ''2026-03-31'')
        [sample_covenant ''quarterly'' ''COV-TEST'']) =
   Some (Inr
     [(''2025-06-30'', ''2025-03-31'', ''2025-06-29''),
      (''2025-09-30'', ''2025-06-30'', ''2025-09-29''),
      (''2025-12-31'', ''2025-09-30'', ''2025-12-29''),
      (''2026-02-27'', ''2025-12-30'', ''2026-02-27''),
      (''2026-03-31'', ''2025-12-30'', ''2026-03-29'')])"
proof -
  let ?c = "sample_covenant ''quarterly'' ''COV-TEST''"
  have idx: "4 + 1 = (5::nat)" by simp
  note cid = sample_covenant_id[of "''quarterly''" "''COV-TEST''"]
  have f: "periodic_loop plain_forward ?c 3 (Date 2025 3 31)
     (Date 2026 3 31) 31 True [] 1 (Date 2025 3 31) =
   Some (Inr
     [(Regular, entry_of (PStr ''COV-TEST'') 1 (Date 2025 6 30) (Date 2025 3 31) (Date 2025 6 29)),
      (Regular, entry_of (PStr ''COV-TEST'') 2 (Date 2025 9 30) (Date 2025 6 30) (Date 2025 9 29)),
      (Regular, entry_of (PStr ''COV-TEST'') 3 (Date 2025 12 31) (Date 2025 9 30) (Date 2025 12 29)),
      (Extra, entry_of (PStr ''COV-TEST'') 4 (Date 2026 3 2) (Date 2025 12 30) (Date 2026 3 2)),
      (Regular, entry_of (PStr ''COV-TEST'') 5 (Date 2026 3 31) (Date 2025 12 30) (Date 2026 3 29))])"
    unfolding quarterly_passes_1_to_3[of plain_forward ?c, OF plain_generators(1) cid]
      quarterly_pass_4_forward[of plain_forward ?c, OF plain_generators(1,2) cid] idx
    by simp
  have b: "periodic_loop plain_backward ?c 3 (Date 2025 3 31)
     (Date 2026 3 31) 31 True [] 1 (Date 2025 3 31) =
   Some (Inr
     [(Regular, entry_of (PStr ''COV-TEST'') 1 (Date 2025 6 30) (Date 2025 3 31) (Date 2025 6 29)),
      (Regular, entry_of (PStr ''COV-TEST'') 2 (Date 2025 9 30) (Date 2025 6 30) (Date 2025 9 29)),
      (Regular, entry_of (PStr ''COV-TEST'') 3 (Date 2025 12 31) (Date 2025 9 30) (Date 2025 12 29)),
      (Extra, entry_of (PStr ''COV-TEST'') 4 (Date 2026 2 27) (Date 2025 12 30) (Date 2026 2 27)),
      (Regular, entry_of (PStr ''COV-TEST'') 5 (Date 2026 3 31) (Date 2025 12 30) (Date 2026 3 29))])"
    unfolding quarterly_passes_1_to_3[of plain_backward ?c, OF plain_generators(3) cid]
      quarterly_pass_4_backward[of plain_backward ?c, OF plain_generators(3,4) cid] idx
    by simp
  have gf: "map_option (map_sum id (map (\<lambda>e. (due_date e, period_start e, period_end e))))
     (generate_schedules plain_forward (sample_transaction ''2025-03-31'' ''2026-03-31'') [?c]) =
   Some (Inr
     [(''2025-06-30'', ''2025-03-31'', ''2025-06-29''),
      (''2025-09-30'', ''2025-06-30'', ''2025-09-29''),
      (''2025-12-31'', ''2025-09-30'', ''2025-12-29''),
      (''2026-03-02'', ''2025-12-30'', ''2026-03-02''),
      (''2026-03-31'', ''2025-12-30'', ''2026-03-29'')])"
    unfolding sample_quarterly_schedules[OF plain_generators(1) f]
    by (simp add: entry_of_def format_defs)
  have gb: "map_option (map_sum id (map (\<lambda>e. (due_date e, period_start e, period_end e))))
     (generate_schedules plain_backward (sample_transaction ''2025-03-31'' ''2026-03-31'') [?c]) =
   Some (Inr
     [(''2025-06-30'', ''2025-03-31'', ''2025-06-29''),
      (''2025-09-30'', ''2025-06-30'', ''2025-09-29''),
      (''2025-12-31'', ''2025-09-30'', ''2025-12-29''),
      (''2026-02-27'', ''2025-12-30'', ''2026-02-27''),
      (''2026-03-31'', ''2025-12-30'', ''2026-03-29'')])"
    unfolding sample_quarterly_schedules[OF plain_generators(3) b]
    by (simp add: entry_of_def format_defs)
  have a: "map (adjust_if_needed plain_forward)
     [Date 2025 6 30, Date 2025 9 30, Date 2025 12 31, Date 2026 2 28, Date 2026 3 31] =
   [Inr (Date 2025 6 30), Inr (Date 2025 9 30), Inr (Date 2025 12 31), Inr (Date 2026 3 2),
    Inr (Date 2026 3 31)]"
    by (simp add: adjust_if_needed_business_day[OF plain_generators(1)] weekdays_2025
        adjust_feb_2026_forward[OF plain_generators(1,2)])
  from f gf a gb show ?thesis by (intro conjI)
qed


lemma weekdays_february:
  "weekday (Date 2025 2 28) = 4" "weekday (Date 2026 2 28) = 5" "weekday (Date 2027 2 28) = 6"
  "weekday (Date 2027 3 1) = 0" "weekday (Date 2027 2 27) = 5" "weekday (Date 2027 2 26) = 4"
  by (simp_all add: calendar_defs)

lemma adjust_feb_2027_forward:
  "holidays sg = {} \<Longrightarrow> forward sg \<Longrightarrow> adjust_if_needed sg (Date 2027 2 28) = Inr (Date 2027 3 1)"
  by (simp add: adjust_if_needed_def adjust_to_business_day_def no_holidays_business_day
      step_defs calendar_defs)

lemma adjust_feb_2027_backward:
  "holidays sg = {} \<Longrightarrow> \<not> forward sg \<Longrightarrow> adjust_if_needed sg (Date 2027 2 28) = Inr (Date 2027 2 26)"
  by (simp add: adjust_if_needed_def adjust_to_business_day_def no_holidays_business_day
      step_defs calendar_defs)

lemma annual_passes:
  assumes "holidays sg = {}" "covenant ''covenant_id'' = Some cid"
    and "adjust_if_needed sg (Date 2026 2 28) = Inr d2"
    and "adjust_if_needed sg (Date 2027 2 28) = Inr d3"
  shows "periodic_loop sg covenant 12 (Date 2024 2 29) (Date 2028 2 28) 29 True [] 1 (Date 2024 2 29)
   = Some (Inr
       [(Regular, entry_of cid 1 (Date 2025 2 28) (Date 2024 2 29) (Date 2025 2 27)),
        (Regular, entry_of cid 2 d2 (Date 2025 2 28) (Date 2026 2 27)),
        (Regular, entry_of cid 3 d3 (Date 2026 2 28) (Date 2027 2 27))])"
proof -
  have 1: "periodic_loop sg covenant 12 (Date 2024 2 29) (Date 2028 2 28) 29 True S i (Date 2024 2 29)
    = periodic_loop sg covenant 12 (Date 2024 2 29) (Date 2028 2 28) 29 True
        (S @ [(Regular, entry_of cid i (Date 2025 2 28) (Date 2024 2 29) (Date 2025 2 27))])
        (i + 1) (Date 2025 2 28)" for S i
    by (subst periodic_loop_unfold) (simp add: periodic_eval assms(1,2) weekdays_february)
  have 2: "periodic_loop sg covenant 12 (Date 2024 2 29) (Date 2028 2 28) 29 True S i (Date 2025 2 28)
    = periodic_loop sg covenant 12 (Date 2024 2 29) (Date 2028 2 28) 29 True
        (S @ [(Regular, entry_of cid i d2 (Date 2025 2 28) (Date 2026 2 27))])
        (i + 1) (Date 2026 2 28)" for S i
    by (subst periodic_loop_unfold)
       (simp add: add_months_def Let_def prev_day_def february_entry_def period_due_date_def
          calendar_defs less_date_iff make_schedule_entry_eq assms)
  have 3: "periodic_loop sg covenant 12 (Date 2024 2 29) (Date 2028 2 28) 29 True S i (Date 2026 2 28)
    = periodic_loop sg covenant 12 (Date 2024 2 29) (Date 2028 2 28) 29 True
        (S @ [(Regular, entry_of cid i d3 (Date 2026 2 28) (Date 2027 2 27))])
        (i + 1) (Date 2027 2 28)" for S i
    by (subst periodic_loop_unfold)
       (simp add: add_months_def Let_def prev_day_def february_entry_def period_due_date_def
          calendar_defs less_date_iff make_schedule_entry_eq assms)
  have 4: "periodic_loop sg covenant 12 (Date 2024 2 29) (Date 2028 2 28) 29 True S i (Date 2027 2 28)
    = Some (Inr S)" for S i
    by (subst periodic_loop_unfold)
       (simp add: add_months_def Let_def prev_day_def february_entry_def period_due_date_def
          calendar_defs less_date_iff)
  have idx: "Suc 0 = 1" "Suc 1 = 2" "Suc 2 = 3" "Suc 3 = (4::nat)"
    by simp_all
  show ?thesis
    unfolding 1[of "[]" 1] 2[of _ "1 + 1"] 3[of _ "1 + 1 + 1"] 4
    by (simp add: idx[symmetric])
qed

lemma sample_annual_transaction:
  "strptime ''2024-02-29'' = Some (Date 2024 2 29)" "strptime ''2028-02-28'' = Some (Date 2028 2 28)"
  by (simp_all add: parse_defs calendar_defs)

lemma sample_annual_schedules:
  assumes "periodic_loop sg (sample_covenant ''annually'' ''COV-TEST'') 12 (Date 2024 2 29)
           (Date 2028 2 28) 29 True [] 1 (Date 2024 2 29) = Some (Inr S)"
  shows "generate_schedules sg (sample_transaction ''2024-02-29'' ''2028-02-28'')
           [sample_covenant ''annually'' ''COV-TEST''] = Some (Inr (map snd S))"
proof -
  let ?t = "sample_transaction ''2024-02-29'' ''2028-02-28''"
  let ?c = "sample_covenant ''annually'' ''COV-TEST''"
  note d = sample_transaction_dates(1)[OF sample_annual_transaction(1)]
    sample_transaction_dates(2)[OF sample_annual_transaction(2)]
  have v: "validate_transaction ?t = Inr ()"
    by (rule sample_transaction_valid[OF sample_annual_transaction])
       (simp add: less_eq_date_iff)
  have c: "check_covenant ?c (PStr ''TXN-TEST'') {} = Inr (PStr ''COV-TEST'')"
    by (rule sample_covenant_check) (simp_all add: lower_frequencies allowed_frequencies_def)
  have k: "\<not> skipped (lower ''annually'') (toordinal (Date 2028 2 28) - toordinal (Date 2024 2 29))"
    by (simp add: skipped_def lower_frequencies calendar_defs)
  have m: "generator_method (lower ''annually'') = Some generate_annually_schedules"
    by (simp add: lower_frequencies generator_methods)
  have "periodic_loop sg ?c 12 (Date 2024 2 29) (Date 2028 2 28) (day (Date 2024 2 29))
          (days_in_month (year (Date 2024 2 29)) (month (Date 2024 2 29)) = day (Date 2024 2 29))
          [] 1 (Date 2024 2 29) = Some (Inr S)"
    using assms by (simp add: calendar_defs)
  from generate_periodic_schedules_eq[OF d this]
  have "generate_annually_schedules sg ?t ?c = Some (Inr (map snd S))"
    by (simp add: generate_annually_schedules_def)
  from generate_schedules_single[OF v sample_transaction_id d c sample_covenant_frequency k m this]
  show ?thesis .
qed

lemma annual_due_dates_forward:
  "map_option (map_sum id (map due_date))
     (generate_schedules plain_forward (sample_transaction ''2024-02-29'' ''2028-02-28'')
        [sample_covenant ''annually'' ''COV-TEST'']) =
   Some (Inr [''2025-02-28'', ''2026-03-02'', ''2027-03-01''])"
  unfolding sample_annual_schedules[OF annual_passes[of plain_forward
        "sample_covenant ''annually'' ''COV-TEST''", OF plain_generators(1)
        sample_covenant_id[of "''annually''" "''COV-TEST''"]
        adjust_feb_2026_forward[OF plain_generators(1,2)]
        adjust_feb_2027_forward[OF plain_generators(1,2)]]]
  by (simp add: entry_of_def format_defs)

lemma annual_due_dates_backward:
  "map_option (map_sum id (map due_date))
     (generate_schedules plain_backward (sample_transaction ''2024-02-29'' ''2028-02-28'')
        [sample_covenant ''annually'' ''COV-TEST'']) =
   Some (Inr [''2025-02-28'', ''2026-02-27'', ''2027-02-26''])"
  unfolding sample_annual_schedules[OF annual_passes[of plain_backward
        "sample_covenant ''annually'' ''COV-TEST''", OF plain_generators(3)
        sample_covenant_id[of "''annually''" "''COV-TEST''"]
        adjust_feb_2026_backward[OF plain_generators(3,4)]
        adjust_feb_2027_backward[OF plain_generators(3,4)]]]
  by (simp add: entry_of_def format_defs)

text \<open>
  C6, amended. For the transaction 2024-02-29 to 2028-02-28 with one annual covenant and no
  holidays, exactly three entries are returned. Their due dates are the business-day
  adjustments of 2025-02-28, 2026-02-28 (a Saturday) and 2027-02-28 (a Sunday): 2025-02-28,
  2026-03-02 and 2027-03-01 when adjusting forward, 2025-02-28, 2026-02-27 and 2027-02-26
  when adjusting backward. There is no entry for 2028: the due date computed for the period
  that starts on 2027-02-28 is 2028-02-29, which is after the end date.
\<close>

theorem annual_leap_scenario:
  "map_option (map_sum id (map due_date))
     (generate_schedules plain_forward (sample_transaction ''2024-02-29'' ''2028-02-28'')
        [sample_covenant ''annually'' ''COV-TEST'']) =
   Some (Inr [''2025-02-28'', ''2026-03-02'', ''2027-03-01'']) \<and>
   map_option (map_sum id (map due_date))
     (generate_schedules plain_backward (sample_transaction ''2024-02-29'' ''2028-02-28'')
        [sample_covenant ''annually'' ''COV-TEST'']) =
   Some (Inr [''2025-02-28'', ''2026-02-27'', ''2027-02-26'']) \<and>
   map (period_due_date 12 (Date 2024 2 29) 29 True)
     [Date 2025 2 28, Date 2026 2 28, Date 2027 2 28, Date 2028 2 28] =
     [Date 2025 2 28, Date 2026 2 28, Date 2027 2 28, Date 2028 2 29] \<and>
   map (adjust_if_needed plain_forward) [Date 2025 2 28, Date 2026 2 28, Date 2027 2 28] =
     [Inr (Date 2025 2 28), Inr (Date 2026 3 2), Inr (Date 2027 3 1)] \<and>
   map (adjust_if_needed plain_backward) [Date 2025 2 28, Date 2026 2 28, Date 2027 2 28] =
     [Inr (Date 2025 2 28), Inr (Date 2026 2 27), Inr (Date 2027 2 26)] \<and>
   add_months (Date 2027 2 28) 12 = Inr (Date 2028 2 28) \<and>
   Date 2028 2 28 < Date 2028 2 29"
proof -
  have p: "map (period_due_date 12 (Date 2024 2 29) 29 True)
     [Date 2025 2 28, Date 2026 2 28, Date 2027 2 28, Date 2028 2 28] =
     [Date 2025 2 28, Date 2026 2 28, Date 2027 2 28, Date 2028 2 29]"
    by (simp add: period_due_date_def Let_def calendar_defs)
  have f: "map (adjust_if_needed plain_forward) [Date 2025 2 28, Date 2026 2 28, Date 2027 2 28] =
     [Inr (Date 2025 2 28), Inr (Date 2026 3 2), Inr (Date 2027 3 1)]"
    by (simp add: adjust_if_needed_business_day[OF plain_generators(1)] weekdays_february
        adjust_feb_2026_forward[OF plain_generators(1,2)]
        adjust_feb_2027_forward[OF plain_generators(1,2)])
  have b: "map (adjust_if_needed plain_backward) [Date 2025 2 28, Date 2026 2 28, Date 2027 2 28] =
     [Inr (Date 2025 2 28), Inr (Date 2026 2 27), Inr (Date 2027 2 26)]"
    by (simp add: adjust_if_needed_business_day[OF plain_generators(3)] weekdays_february
        adjust_feb_2026_backward[OF plain_generators(3,4)]
        adjust_feb_2027_backward[OF plain_generators(3,4)])
  have a: "add_months (Date 2027 2 28) 12 = Inr (Date 2028 2 28)"
    by (simp add: add_months_def Let_def calendar_defs)
  have l: "Date 2028 2 28 < Date 2028 2 29"
    by (simp add: less_date_iff)
  from annual_due_dates_forward annual_due_dates_backward p f b a l show ?thesis
    by (intro conjI)
qed

theorem annual_leap_scenario_counterexample:
  "map_option (map_sum id (map due_date))
     (generate_schedules plain_forward (sample_transaction ''2024-02-29'' ''2028-02-28'')
        [sample_covenant ''annually'' ''COV-TEST'']) \<noteq>
   Some (Inr [''2025-02-28'', ''2026-02-28'', ''2027-02-28'']) \<and>
   map_option (map_sum id (map due_date))
     (generate_schedules plain_backward (sample_transaction ''2024-02-29'' ''2028-02-28'')
        [sample_covenant ''annually'' ''COV-TEST'']) \<noteq>
   Some (Inr [''2025-02-28'', ''2026-02-28'', ''2027-02-28''])"
  unfolding annual_due_dates_forward annual_due_dates_backward by simp


section \<open>Formatting and parsing are inverse\<close>

lemma digit_index_props:
  "k < 10 \<Longrightarrow> is_digit (''0123456789'' ! k) \<and> digit_val (''0123456789'' ! k) = k \<and>
     ''0123456789'' ! k \<noteq> CHR ''-'' \<and> ''0123456789'' ! k \<noteq> CHR '' ''"
  by (auto simp: eval_nat_numeral less_Suc_eq is_digit_def digit_val_def)

lemma digit_char_props:
  "is_digit (digit_char n)" "digit_val (digit_char n) = n mod 10"
  "digit_char n \<noteq> CHR ''-''" "digit_char n \<noteq> CHR '' ''"
  using digit_index_props[of "n mod 10"] by (simp_all add: digit_char_def)

lemma digits2: "m < 100 \<Longrightarrow> 10 * ((m div 10) mod 10) + m mod 10 = (m::nat)"
  by simp
lemma digits4:
  assumes "y < 10000"
  shows "1000 * ((y div 1000) mod 10) + 100 * ((y div 100) mod 10) + 10 * ((y div 10) mod 10)
           + y mod 10 = (y::nat)"
proof -
  have 1: "y = 10 * (y div 10) + y mod 10" by simp
  have "(y div 10) div 10 = y div 100" "(y div 100) div 10 = y div 1000"
    by (simp_all add: div_mult2_eq[symmetric])
  with div_mult_mod_eq[of "y div 10" 10] div_mult_mod_eq[of "y div 100" 10]
  have 2: "y div 10 = 10 * (y div 100) + (y div 10) mod 10"
    and 3: "y div 100 = 10 * (y div 1000) + (y div 100) mod 10"
    by simp_all
  from assms have 4: "(y div 1000) mod 10 = y div 1000" by simp
  from 1 2 3 4 show ?thesis by linarith
qed

lemma dec_four_digits:
  assumes "1000 \<le> y" "y < 10000"
  shows "dec y = [digit_char (y div 1000), digit_char (y div 100), digit_char (y div 10),
                  digit_char y]"
proof -
  have d: "(y div 10) div 10 = y div 100" "(y div 100) div 10 = y div 1000"
    by (simp_all add: div_mult2_eq[symmetric])
  from assms have c: "\<not> y < 10" "\<not> y div 10 < 10" "\<not> y div 100 < 10" "y div 1000 < 10"
    by simp_all
  have "dec y = dec (y div 10) @ [digit_char y]"
    using c(1) by (subst dec.simps) simp
  also have "dec (y div 10) = dec (y div 100) @ [digit_char (y div 10)]"
    using c(2) by (subst dec.simps) (simp add: d)
  also have "dec (y div 100) = dec (y div 1000) @ [digit_char (y div 100)]"
    using c(3) by (subst dec.simps) (simp add: d)
  also have "dec (y div 1000) = [digit_char (y div 1000)]"
    using c(4) by (subst dec.simps) simp
  finally show ?thesis by simp
qed

text \<open>From the year 1000 on, parsing reads back what formatting wrote.\<close>

lemma strptime_strftime:
  assumes "valid_date d" "1000 \<le> year d"
  shows "strptime (strftime d) = Some d"
proof -
  from assms have y: "1 \<le> year d" "year d < 10000" and m: "1 \<le> month d" "month d \<le> 12"
    and dd: "1 \<le> day d" "day d \<le> days_in_month (year d) (month d)"
    by (simp_all add: valid_date_def MINYEAR_def MAXYEAR_def)
  from dd days_in_month_le_31[of "year d" "month d"] have d31: "day d \<le> 31" by simp
  have vy: "1000 * digit_val (digit_char (year d div 1000)) +
      100 * digit_val (digit_char (year d div 100)) +
      10 * digit_val (digit_char (year d div 10)) + digit_val (digit_char (year d)) = year d"
    unfolding digit_char_props by (rule digits4[OF y(2)])
  have vm: "number2 (digit_char (month d div 10)) (digit_char (month d)) = month d"
    unfolding number2_def digit_char_props using m by (intro digits2) simp
  have vd: "number2 (digit_char (day d div 10)) (digit_char (day d)) = day d"
    unfolding number2_def digit_char_props using d31 by (intro digits2) simp
  have py: "parse_year (strftime d) = Some (year d, pad2 (month d) @ CHR ''-'' # pad2 (day d))"
    unfolding strftime_def dec_four_digits[OF assms(2) y(2)]
    by (simp add: digit_char_props(1,3,4) vy)
  have pm: "parse_month (pad2 (month d) @ CHR ''-'' # pad2 (day d)) = Some (month d, pad2 (day d))"
    unfolding pad2_def using m by (simp add: digit_char_props(1,3,4) vm)
  have pd: "parse_day (pad2 (day d)) = Some (day d)"
    unfolding pad2_def using dd(1) d31 by (simp add: digit_char_props(1,3,4) vd)
  show ?thesis
    using y(1) dd(2) by (simp add: strptime_def py pm pd MINYEAR_def)
qed

section \<open>Adjustment and the order of dates\<close>

declare adjust_loop.simps [simp del]



lemma adjust_loop_forward_ge: "adjust_loop sg True d a = Inr r \<Longrightarrow> d \<le> r"
proof (induction sg "True" d a rule: adjust_loop.induct)
  case (1 sg d a)
  show ?case
  proof (cases "is_business_day sg d")
    case True
    with "1.prems" show ?thesis by (simp add: adjust_loop.simps)
  next
    case False
    with "1.prems"(1) obtain d' where s: "step_day True d = Inr d'" and a: "\<not> a + 1 > 10"
      and r: "adjust_loop sg True d' (a + 1) = Inr r"
      by (subst (asm) adjust_loop.simps) (auto split: sum.splits if_splits)
    from "1.hyps"[OF False s a r] next_day_greater[of d d'] s show ?thesis
      by (simp add: step_day_def)
  qed
qed

lemma adjust_loop_backward_le: "adjust_loop sg False d a = Inr r \<Longrightarrow> r \<le> d"
proof (induction sg "False" d a rule: adjust_loop.induct)
  case (1 sg d a)
  show ?case
  proof (cases "is_business_day sg d")
    case True
    with "1.prems" show ?thesis by (simp add: adjust_loop.simps)
  next
    case False
    with "1.prems"(1) obtain d' where s: "step_day False d = Inr d'" and a: "\<not> a + 1 > 10"
      and r: "adjust_loop sg False d' (a + 1) = Inr r"
      by (subst (asm) adjust_loop.simps) (auto split: sum.splits if_splits)
    from "1.hyps"[OF False s a r] prev_day_less[of d d'] s show ?thesis
      by (simp add: step_day_def)
  qed
qed

text \<open>Moving forward never jumps over a business day; neither does moving backward.\<close>

lemma adjust_loop_forward_le_business_day:
  "adjust_loop sg True d a = Inr r \<Longrightarrow> valid_date d \<Longrightarrow> valid_date x \<Longrightarrow> d \<le> x \<Longrightarrow>
   is_business_day sg x \<Longrightarrow> r \<le> x"
proof (induction sg "True" d a rule: adjust_loop.induct)
  case (1 sg d a)
  show ?case
  proof (cases "is_business_day sg d")
    case True
    with "1.prems" show ?thesis by (simp add: adjust_loop.simps)
  next
    case False
    with "1.prems"(1) obtain d' where s: "step_day True d = Inr d'" and a: "\<not> a + 1 > 10"
      and r: "adjust_loop sg True d' (a + 1) = Inr r"
      by (subst (asm) adjust_loop.simps) (auto split: sum.splits if_splits)
    from False "1.prems"(4,5) have "d < x" by (auto simp: less_le)
    with s "1.prems"(2,3) have "d' \<le> x" "valid_date d'"
      by (auto simp: step_day_def dest: next_day_least next_day_valid)
    with "1.hyps"[OF False s a r] "1.prems"(3,5) show ?thesis by simp
  qed
qed

lemma adjust_loop_backward_ge_business_day:
  "adjust_loop sg False d a = Inr r \<Longrightarrow> valid_date d \<Longrightarrow> valid_date x \<Longrightarrow> x \<le> d \<Longrightarrow>
   is_business_day sg x \<Longrightarrow> x \<le> r"
proof (induction sg "False" d a rule: adjust_loop.induct)
  case (1 sg d a)
  show ?case
  proof (cases "is_business_day sg d")
    case True
    with "1.prems" show ?thesis by (simp add: adjust_loop.simps)
  next
    case False
    with "1.prems"(1) obtain d' where s: "step_day False d = Inr d'" and a: "\<not> a + 1 > 10"
      and r: "adjust_loop sg False d' (a + 1) = Inr r"
      by (subst (asm) adjust_loop.simps) (auto split: sum.splits if_splits)
    from False "1.prems"(4,5) have "x < d" by (auto simp: less_le)
    with s "1.prems"(2,3) have "x \<le> d'" "valid_date d'"
      by (auto simp: step_day_def dest: prev_day_greatest prev_day_valid)
    with "1.hyps"[OF False s a r] "1.prems"(3,5) show ?thesis by simp
  qed
qed


lemma adjust_to_business_day_forward_ge:
  "adjust_to_business_day sg d True = Inr r \<Longrightarrow> d \<le> r"
  unfolding adjust_to_business_day_def by (rule adjust_loop_forward_ge)

lemma adjust_to_business_day_backward_le:
  "adjust_to_business_day sg d False = Inr r \<Longrightarrow> r \<le> d"
  unfolding adjust_to_business_day_def by (rule adjust_loop_backward_le)


lemma adjust_business_day_id:
  "is_business_day sg r \<Longrightarrow> adjust_to_business_day sg r f = Inr r"
  by (simp add: adjust_to_business_day_def adjust_loop.simps)



section \<open>What the generators emit\<close>


definition numbered :: "(nat \<Rightarrow> 'a \<Rightarrow> bool) \<Rightarrow> nat \<Rightarrow> 'a list \<Rightarrow> bool" where
  "numbered Q i0 xs \<longleftrightarrow> (\<forall>k<length xs. Q (i0 + k) (xs ! k))"



lemma numbered_mono:
  "numbered Q i0 xs \<Longrightarrow> (\<And>i x. Q i x \<Longrightarrow> R i x) \<Longrightarrow> numbered R i0 xs"
  by (simp add: numbered_def)







section \<open>Facts about the periodic generator\<close>















section \<open>The contract of the business-day adjustment\<close>

lemma step_day_error: "step_day f d = Inl e \<Longrightarrow> e = OverflowError"
  by (auto simp: step_day_def next_day_def prev_day_def split: if_splits)

lemma steps_Suc_last:
  "steps f d (Suc k) = (case steps f d k of Inl e \<Rightarrow> Inl e | Inr x \<Rightarrow> step_day f x)"
proof (induction k arbitrary: d)
  case 0
  show ?case by (simp split: sum.splits)
next
  case (Suc k)
  show ?case
  proof (cases "step_day f d")
    case (Inl e)
    then show ?thesis by simp
  next
    case (Inr d')
    have "steps f d (Suc (Suc k)) = steps f d' (Suc k)"
      using Inr by simp
    also have "\<dots> = (case steps f d' k of Inl e \<Rightarrow> Inl e | Inr x \<Rightarrow> step_day f x)"
      by (rule Suc.IH)
    also have "steps f d' k = steps f d (Suc k)"
      using Inr by simp
    finally show ?thesis .
  qed
qed

lemma adjust_loop_overflow:
  "steps f d k = Inr dk \<Longrightarrow> step_day f dk = Inl e \<Longrightarrow> k + a \<le> 10 \<Longrightarrow>
   (\<forall>j\<le>k. \<forall>dj. steps f d j = Inr dj \<longrightarrow> \<not> is_business_day sg dj) \<Longrightarrow>
   adjust_loop sg f d a = Inl OverflowError"
proof (induction k arbitrary: d a)
  case 0
  then have "\<not> is_business_day sg d" "step_day f d = Inl e" by auto
  with step_day_error[of f d e] show ?case by (simp add: adjust_loop.simps)
next
  case (Suc k)
  from Suc.prems(1) obtain d' where st: "step_day f d = Inr d'" and r: "steps f d' k = Inr dk"
    by (auto split: sum.splits)
  from Suc.prems(4) have nb: "\<not> is_business_day sg d" by (auto dest: spec[of _ 0])
  have "\<forall>j\<le>k. \<forall>dj. steps f d' j = Inr dj \<longrightarrow> \<not> is_business_day sg dj"
  proof (intro allI impI)
    fix j dj assume "j \<le> k" "steps f d' j = Inr dj"
    with Suc.prems(4) st show "\<not> is_business_day sg dj"
      by (auto dest!: spec[of _ "Suc j"])
  qed
  from Suc.IH[OF r Suc.prems(2) _ this, of "a + 1"] Suc.prems(3)
  have "adjust_loop sg f d' (a + 1) = Inl OverflowError" by simp
  with nb st Suc.prems(3) show ?case by (simp add: adjust_loop.simps)
qed

lemma adjust_loop_errors:
  "adjust_loop sg f d a = Inl e \<Longrightarrow> e = RuntimeError no_business_day_msg \<or> e = OverflowError"
proof (induction sg f d a rule: adjust_loop.induct)
  case (1 sg f d a)
  from "1.prems" have nb: "\<not> is_business_day sg d"
    by (subst (asm) adjust_loop.simps) (auto split: if_splits)
  show ?case
  proof (cases "step_day f d")
    case (Inl e')
    with nb "1.prems" step_day_error[of f d e'] show ?thesis
      by (subst (asm) adjust_loop.simps) simp
  next
    case (Inr d')
    show ?thesis
    proof (cases "a + 1 > 10")
      case True
      with nb Inr "1.prems" show ?thesis by (subst (asm) adjust_loop.simps) simp
    next
      case False
      with nb Inr "1.prems" have "adjust_loop sg f d' (a + 1) = Inl e"
        by (subst (asm) adjust_loop.simps) simp
      from "1.IH"[OF nb Inr False this] show ?thesis .
    qed
  qed
qed

text \<open>
  C8, amended. \<^verbatim>\<open>_adjust_to_business_day(d, forward)\<close> returns \<open>d\<close> unchanged when \<open>d\<close> is a
  business day. One step is the next calendar day when moving forward and the previous one
  when moving backward. When the function returns a date \<open>r\<close>, then \<open>r\<close> is the first business
  day among \<open>d\<close> and the ten dates that follow it step by step; \<open>r\<close> is not before \<open>d\<close> when
  moving forward and not after \<open>d\<close> when moving backward, no business day lies between them,
  and adjusting \<open>r\<close> again returns \<open>r\<close>. Whenever such a first business day exists within ten
  steps, it is returned. When none of \<open>d\<close> and the ten following dates is a business day and
  the eleventh step stays inside the supported range of dates, the runtime error is raised.
  When a step of the search leaves the range 0001-01-01 to 9999-12-31, the overflow error of
  the date arithmetic is raised instead. No other error is raised.
\<close>

theorem adjust_to_business_day_first_business_day:
  "(is_business_day sg d \<longrightarrow> adjust_to_business_day sg d f = Inr d) \<and>
   steps f d 1 = (if f then next_day d else prev_day d) \<and>
   (\<forall>r. adjust_to_business_day sg d f = Inr r \<longrightarrow>
        (\<exists>k\<le>10. steps f d k = Inr r \<and> is_business_day sg r \<and>
           (\<forall>j<k. \<exists>dj. steps f d j = Inr dj \<and> \<not> is_business_day sg dj)) \<and>
        adjust_to_business_day sg r f = Inr r \<and>
        (f \<longrightarrow> d \<le> r) \<and> (\<not> f \<longrightarrow> r \<le> d) \<and>
        (\<forall>x. valid_date d \<and> valid_date x \<and> is_business_day sg x \<longrightarrow>
           (f \<and> d \<le> x \<longrightarrow> r \<le> x) \<and> (\<not> f \<and> x \<le> d \<longrightarrow> x \<le> r))) \<and>
   (\<forall>k r. k \<le> 10 \<and> steps f d k = Inr r \<and> is_business_day sg r \<and>
        (\<forall>j<k. \<forall>dj. steps f d j = Inr dj \<longrightarrow> \<not> is_business_day sg dj) \<longrightarrow>
        adjust_to_business_day sg d f = Inr r) \<and>
   ((\<forall>j\<le>10. \<exists>dj. steps f d j = Inr dj \<and> \<not> is_business_day sg dj) \<and>
    (\<exists>x. steps f d 11 = Inr x) \<longrightarrow>
      adjust_to_business_day sg d f = Inl (RuntimeError no_business_day_msg)) \<and>
   ((\<exists>k\<le>10. (\<forall>j\<le>k. \<exists>dj. steps f d j = Inr dj \<and> \<not> is_business_day sg dj) \<and>
       (\<exists>e. steps f d (Suc k) = Inl e)) \<longrightarrow>
      adjust_to_business_day sg d f = Inl OverflowError) \<and>
   (\<forall>e. adjust_to_business_day sg d f = Inl e \<longrightarrow>
        e = RuntimeError no_business_day_msg \<or> e = OverflowError)"
proof (intro conjI allI impI)
  assume "is_business_day sg d"
  then show "adjust_to_business_day sg d f = Inr d"
    by (rule adjust_business_day_id)
next
  show "steps f d 1 = (if f then next_day d else prev_day d)"
    by (simp add: step_day_def split: sum.splits)
next
  fix r assume r: "adjust_to_business_day sg d f = Inr r"
  from adjust_loop_returns[of sg f d 0 r] r
  show "\<exists>k\<le>10. steps f d k = Inr r \<and> is_business_day sg r \<and>
           (\<forall>j<k. \<exists>dj. steps f d j = Inr dj \<and> \<not> is_business_day sg dj)"
    by (auto simp: adjust_to_business_day_def)
  from r have "is_business_day sg r"
    by (rule adjust_to_business_day_is_business_day)
  then show "adjust_to_business_day sg r f = Inr r"
    by (rule adjust_business_day_id)
  {
    assume f
    with r show "d \<le> r" by (simp add: adjust_to_business_day_forward_ge)
  }
  {
    assume "\<not> f"
    with r show "r \<le> d" by (simp add: adjust_to_business_day_backward_le)
  }
  {
    fix x assume x: "valid_date d \<and> valid_date x \<and> is_business_day sg x"
    {
      assume "f \<and> d \<le> x"
      with r x adjust_loop_forward_le_business_day[of sg d 0 r x]
      show "r \<le> x" by (simp add: adjust_to_business_day_def)
    }
    {
      assume "\<not> f \<and> x \<le> d"
      with r x adjust_loop_backward_ge_business_day[of sg d 0 r x]
      show "x \<le> r" by (simp add: adjust_to_business_day_def)
    }
  }
next
  fix k r
  assume "k \<le> 10 \<and> steps f d k = Inr r \<and> is_business_day sg r \<and>
        (\<forall>j<k. \<forall>dj. steps f d j = Inr dj \<longrightarrow> \<not> is_business_day sg dj)"
  then show "adjust_to_business_day sg d f = Inr r"
    using adjust_loop_first[of f d k r sg 0] by (simp add: adjust_to_business_day_def)
next
  assume h: "(\<forall>j\<le>10. \<exists>dj. steps f d j = Inr dj \<and> \<not> is_business_day sg dj) \<and>
    (\<exists>x. steps f d 11 = Inr x)"
  then obtain x where "steps f d 11 = Inr x" by blast
  with h show "adjust_to_business_day sg d f = Inl (RuntimeError no_business_day_msg)"
    using adjust_loop_exhausted[of 0 f d sg x] by (simp add: adjust_to_business_day_def)
next
  assume "\<exists>k\<le>10. (\<forall>j\<le>k. \<exists>dj. steps f d j = Inr dj \<and> \<not> is_business_day sg dj) \<and>
       (\<exists>e. steps f d (Suc k) = Inl e)"
  then obtain k e where k: "k \<le> 10"
    and nb: "\<forall>j\<le>k. \<exists>dj. steps f d j = Inr dj \<and> \<not> is_business_day sg dj"
    and e: "steps f d (Suc k) = Inl e" by blast
  from nb obtain dk where dk: "steps f d k = Inr dk" by blast
  with e have s: "step_day f dk = Inl e" by (simp only: steps_Suc_last sum.case)
  from nb have "\<forall>j\<le>k. \<forall>dj. steps f d j = Inr dj \<longrightarrow> \<not> is_business_day sg dj"
    by fastforce
  from adjust_loop_overflow[OF dk s _ this, of 0] k
  show "adjust_to_business_day sg d f = Inl OverflowError"
    by (simp add: adjust_to_business_day_def)
next
  fix e assume "adjust_to_business_day sg d f = Inl e"
  then show "e = RuntimeError no_business_day_msg \<or> e = OverflowError"
    unfolding adjust_to_business_day_def by (rule adjust_loop_errors)
qed


lemma steps_january_2025:
  "a + j \<le> 31 \<Longrightarrow> steps True (Date 2025 1 a) j = Inr (Date 2025 1 (a + j))"
proof (induction j arbitrary: a)
  case 0
  show ?case by simp
next
  case (Suc j)
  from Suc.prems have lt: "a < 31" by simp
  have dim: "days_in_month 2025 1 = 31" by (simp add: days_in_month_def)
  have "step_day True (Date 2025 1 a) = Inr (Date 2025 1 (Suc a))"
    unfolding step_day_def next_day_def using lt dim by simp
  moreover have "steps True (Date 2025 1 (Suc a)) j = Inr (Date 2025 1 (Suc a + j))"
    using Suc.prems by (intro Suc.IH) simp
  ultimately show ?case by simp
qed

definition blocked_fortnight :: generator where
  "blocked_fortnight =
     \<lparr>holidays = {''2025-01-06'', ''2025-01-07'', ''2025-01-08'', ''2025-01-09'', ''2025-01-10'',
                   ''2025-01-13'', ''2025-01-14''},
      business_day_adjustment = ''forward''\<rparr>"

lemma blocked_fortnight_weekend:
  "\<not> is_business_day blocked_fortnight (Date 2025 1 4)"
  "\<not> is_business_day blocked_fortnight (Date 2025 1 5)"
  "\<not> is_business_day blocked_fortnight (Date 2025 1 11)"
  "\<not> is_business_day blocked_fortnight (Date 2025 1 12)"
  by (simp_all add: is_business_day_def calendar_defs)

lemma strftime_january_2025:
  "strftime (Date 2025 1 6) = ''2025-01-06''"
  "strftime (Date 2025 1 7) = ''2025-01-07''"
  "strftime (Date 2025 1 8) = ''2025-01-08''"
  "strftime (Date 2025 1 9) = ''2025-01-09''"
  "strftime (Date 2025 1 10) = ''2025-01-10''"
  "strftime (Date 2025 1 13) = ''2025-01-13''"
  "strftime (Date 2025 1 14) = ''2025-01-14''"
  by (simp_all add: format_defs)

lemma blocked_fortnight_holidays:
  "\<not> is_business_day blocked_fortnight (Date 2025 1 6)"
  "\<not> is_business_day blocked_fortnight (Date 2025 1 7)"
  "\<not> is_business_day blocked_fortnight (Date 2025 1 8)"
  "\<not> is_business_day blocked_fortnight (Date 2025 1 9)"
  "\<not> is_business_day blocked_fortnight (Date 2025 1 10)"
  "\<not> is_business_day blocked_fortnight (Date 2025 1 13)"
  "\<not> is_business_day blocked_fortnight (Date 2025 1 14)"
  unfolding is_business_day_def strftime_january_2025 blocked_fortnight_def
  by simp_all

lemma blocked_fortnight_days:
  assumes "j \<le> 10"
  shows "\<not> is_business_day blocked_fortnight (Date 2025 1 (4 + j))"
proof -
  from assms have "j = 0 \<or> j = 1 \<or> j = 2 \<or> j = 3 \<or> j = 4 \<or> j = 5 \<or> j = 6 \<or> j = 7 \<or>
     j = 8 \<or> j = 9 \<or> j = 10"
    by (auto simp: eval_nat_numeral le_Suc_eq)
  then show ?thesis
    using blocked_fortnight_weekend blocked_fortnight_holidays
    by (elim disjE) simp_all
qed

text \<open>
  C8, at concrete dates. Monday 2025-01-06 is returned unchanged; from Saturday 2025-01-04 the
  forward adjustment returns Monday 2025-01-06 and the backward adjustment Friday 2025-01-03;
  with the ten days after the Saturday all weekends or holidays the adjustment raises
  \<^verbatim>\<open>RuntimeError\<close>; from the holiday 9999-12-31 the forward step leaves the calendar and the
  adjustment raises \<^verbatim>\<open>OverflowError\<close>.
\<close>

theorem adjust_to_business_day_first_business_day_witness:
  "adjust_to_business_day plain_forward (Date 2025 1 6) True = Inr (Date 2025 1 6) \<and>
   adjust_to_business_day plain_forward (Date 2025 1 4) True = Inr (Date 2025 1 6) \<and>
   adjust_to_business_day plain_backward (Date 2025 1 4) False = Inr (Date 2025 1 3) \<and>
   adjust_to_business_day blocked_fortnight (Date 2025 1 4) True
     = Inl (RuntimeError no_business_day_msg) \<and>
   adjust_to_business_day \<lparr>holidays = {''9999-12-31''}, business_day_adjustment = ''forward''\<rparr>
     (Date 9999 12 31) True = Inl OverflowError"
proof -
  have b6: "is_business_day plain_forward (Date 2025 1 6)"
    and b4: "\<not> is_business_day plain_forward (Date 2025 1 4)"
    and b5: "\<not> is_business_day plain_forward (Date 2025 1 5)"
    and c3: "is_business_day plain_backward (Date 2025 1 3)"
    and c4: "\<not> is_business_day plain_backward (Date 2025 1 4)"
    by (simp_all add: no_holidays_business_day plain_generators calendar_defs)
  have a6: "adjust_to_business_day plain_forward (Date 2025 1 6) True = Inr (Date 2025 1 6)"
    using adjust_to_business_day_first_business_day[of plain_forward "Date 2025 1 6" True] b6
    by blast
  have s2: "steps True (Date 2025 1 4) 2 = Inr (Date 2025 1 6)"
    using steps_january_2025[of 4 2] by simp
  have before2: "\<forall>j<2. \<forall>dj. steps True (Date 2025 1 4) j = Inr dj \<longrightarrow>
      \<not> is_business_day plain_forward dj"
  proof (intro allI impI)
    fix j :: nat and dj
    assume "j < 2" and dj: "steps True (Date 2025 1 4) j = Inr dj"
    then have "j = 0 \<or> j = 1" by arith
    with dj steps_january_2025[of 4 1] b4 b5 show "\<not> is_business_day plain_forward dj"
      by auto
  qed
  have a4: "adjust_to_business_day plain_forward (Date 2025 1 4) True = Inr (Date 2025 1 6)"
    using adjust_to_business_day_first_business_day[of plain_forward "Date 2025 1 4" True]
      s2 b6 before2
    by (elim conjE) (drule spec[of _ 2], drule spec[of _ "Date 2025 1 6"], simp)
  have t1: "steps False (Date 2025 1 4) 1 = Inr (Date 2025 1 3)"
    by (simp add: step_day_def prev_day_def)
  have before1: "\<forall>j<1. \<forall>dj. steps False (Date 2025 1 4) j = Inr dj \<longrightarrow>
      \<not> is_business_day plain_backward dj"
    using c4 by simp
  have a3: "adjust_to_business_day plain_backward (Date 2025 1 4) False = Inr (Date 2025 1 3)"
    using adjust_to_business_day_first_business_day[of plain_backward "Date 2025 1 4" False]
      t1 c3 before1
    by (elim conjE) (drule spec[of _ 1], drule spec[of _ "Date 2025 1 3"], simp)
  have blocked: "\<forall>j\<le>10. \<exists>dj. steps True (Date 2025 1 4) j = Inr dj \<and>
      \<not> is_business_day blocked_fortnight dj"
  proof (intro allI impI)
    fix j :: nat
    assume j: "j \<le> 10"
    then have "steps True (Date 2025 1 4) j = Inr (Date 2025 1 (4 + j))"
      by (intro steps_january_2025) simp
    with blocked_fortnight_days[OF j]
    show "\<exists>dj. steps True (Date 2025 1 4) j = Inr dj \<and> \<not> is_business_day blocked_fortnight dj"
      by simp
  qed
  have s11: "\<exists>x. steps True (Date 2025 1 4) 11 = Inr x"
    using steps_january_2025[of 4 11] by simp
  have ar: "adjust_to_business_day blocked_fortnight (Date 2025 1 4) True
     = Inl (RuntimeError no_business_day_msg)"
    using adjust_to_business_day_first_business_day[of blocked_fortnight "Date 2025 1 4" True]
      blocked s11
    by blast
  let ?sg = "\<lparr>holidays = {''9999-12-31''}, business_day_adjustment = ''forward''\<rparr>"
  have last: "\<forall>j\<le>0. \<exists>dj. steps True (Date 9999 12 31) j = Inr dj \<and> \<not> is_business_day ?sg dj"
    by (simp add: is_business_day_def format_defs)
  have over: "\<exists>e. steps True (Date 9999 12 31) (Suc 0) = Inl e"
    by (simp add: step_day_def next_day_def calendar_defs)
  have ao: "adjust_to_business_day ?sg (Date 9999 12 31) True = Inl OverflowError"
    using adjust_to_business_day_first_business_day[of ?sg "Date 9999 12 31" True] last over
    by (elim conjE) (erule impE[where P = "\<exists>k\<le>10. _ k"], rule exI[of _ 0], simp, assumption)
  from a6 a4 a3 ar ao show ?thesis by (intro conjI)
qed

text \<open>
  C8 as the specification words it, refuted: 9999-12-31 is not a business day, no date is
  reachable from it by forward steps, and the adjustment neither returns a date nor raises
  \<^verbatim>\<open>RuntimeError\<close>: the step itself raises \<^verbatim>\<open>OverflowError\<close>.
\<close>

theorem adjust_to_business_day_overflow_counterexample:
  "\<not> is_business_day \<lparr>holidays = {''9999-12-31''}, business_day_adjustment = ''forward''\<rparr>
       (Date 9999 12 31) \<and>
   (\<forall>k r. steps True (Date 9999 12 31) (Suc k) \<noteq> Inr r) \<and>
   adjust_to_business_day \<lparr>holidays = {''9999-12-31''}, business_day_adjustment = ''forward''\<rparr>
     (Date 9999 12 31) True = Inl OverflowError \<and>
   adjust_to_business_day \<lparr>holidays = {''9999-12-31''}, business_day_adjustment = ''forward''\<rparr>
     (Date 9999 12 31) True \<noteq> Inl (RuntimeError no_business_day_msg)"
  by (simp add: adjust_to_business_day_def adjust_loop.simps is_business_day_def step_day_def
      next_day_def calendar_defs format_defs)





































end
